theory Spec2Isabelle
  imports Main "HOL-Library.Sublist"
begin

section \<open>Simulated device commands: normalisation, matching and the upsert/merge handlers\<close>

text \<open>
  A shallow embedding of the handler file for simulated device commands
  (\<^verbatim>\<open>SimDeviceCmdHandler\<close>): the two pure helpers \<^verbatim>\<open>normalizeCommand\<close> and
  \<^verbatim>\<open>prefixMatchByWords\<close>, and the handlers \<^verbatim>\<open>CreateSimDeviceCmd\<close>,
  \<^verbatim>\<open>GetSimDeviceCmd\<close>, \<^verbatim>\<open>UpdateSimDeviceCmd\<close>, \<^verbatim>\<open>DeleteSimDeviceCmd\<close> and
  \<^verbatim>\<open>MatchSimDeviceCmd\<close> as functions from a request and a store to a response and
  the store afterwards. \<^verbatim>\<open>ListSimDeviceCmds\<close>, a filtered query with no decision in
  it, is left out.

  Go strings are modelled as \<^typ>\<open>string\<close>, a list of bytes. The functions of Go's
  \<^verbatim>\<open>strings\<close> package are given on ASCII text: white space is the six ASCII space
  characters, and lower-casing maps \<^verbatim>\<open>A..Z\<close> to \<^verbatim>\<open>a..z\<close> and leaves every other byte
  alone. This is what Go computes on a string without non-ASCII white space and without
  non-ASCII upper-case letters.
\<close>

subsection \<open>The functions of Go's \<^verbatim>\<open>strings\<close> package that the handlers call\<close>

definition isSpace :: "char \<Rightarrow> bool" where
  \<comment> \<open>\<^verbatim>\<open>'\t', '\n', '\v', '\f', '\r', ' '\<close>\<close>
  "isSpace c = (c = CHR 0x09 \<or> c = CHR 0x0A \<or> c = CHR 0x0B \<or> c = CHR 0x0C
                \<or> c = CHR 0x0D \<or> c = CHR 0x20)"

definition TrimSpace :: "string \<Rightarrow> string" where
  "TrimSpace s = rev (dropWhile isSpace (rev (dropWhile isSpace s)))"

definition toLowerByte :: "char \<Rightarrow> char" where
  \<comment> \<open>\<^verbatim>\<open>if 'A' <= c && c <= 'Z' { c += 'a' - 'A' }\<close>\<close>
  "toLowerByte c =
     (let n = (of_char c :: nat) in if 65 \<le> n \<and> n \<le> 90 then char_of (n + 32) else c)"

definition ToLower :: "string \<Rightarrow> string" where
  "ToLower s = map toLowerByte s"

function Fields :: "string \<Rightarrow> string list" where
  "Fields s =
     (case dropWhile isSpace s of
        [] \<Rightarrow> []
      | c # cs \<Rightarrow> takeWhile (\<lambda>x. \<not> isSpace x) (c # cs)
                   # Fields (dropWhile (\<lambda>x. \<not> isSpace x) (c # cs)))"
  by pat_completeness auto
termination
proof (relation "measure length")
  show "wf (measure length)" by simp
next
  fix s :: string and c cs
  assume d: "dropWhile isSpace s = c # cs"
  have "\<not> isSpace c" using d hd_dropWhile[of isSpace s] by auto
  then have "length (dropWhile (\<lambda>x. \<not> isSpace x) (c # cs)) \<le> length cs"
    by (simp add: length_dropWhile_le)
  moreover have "length (c # cs) \<le> length s"
    using d length_dropWhile_le[of isSpace s] by simp
  ultimately show "(dropWhile (\<lambda>x. \<not> isSpace x) (c # cs), s) \<in> measure length"
    by simp
qed

declare Fields.simps [simp del]

definition word :: "string \<Rightarrow> bool" where
  \<comment> \<open>what \<^const>\<open>Fields\<close> returns: non-empty strings without white space\<close>
  "word w = (w \<noteq> [] \<and> (\<forall>c \<in> set w. \<not> isSpace c))"

fun Join :: "string list \<Rightarrow> string \<Rightarrow> string" where
  "Join [] sep = []"
| "Join [x] sep = x"
| "Join (x # y # ys) sep = x @ sep @ Join (y # ys) sep"

definition HasPrefix :: "string \<Rightarrow> string \<Rightarrow> bool" where
  \<comment> \<open>\<^verbatim>\<open>len(s) >= len(prefix) && s[:len(prefix)] == prefix\<close>\<close>
  "HasPrefix s pre = (length pre \<le> length s \<and> take (length pre) s = pre)"

function ReplaceAll :: "string \<Rightarrow> string \<Rightarrow> string \<Rightarrow> string" where
  \<comment> \<open>non-overlapping occurrences of \<open>old\<close>, left to right; an empty \<open>old\<close> matches
      before every character and at the end\<close>
  "ReplaceAll s old new =
     (if old = [] then new @ concat (map (\<lambda>c. c # new) s)
      else if s = [] then []
      else if take (length old) s = old then new @ ReplaceAll (drop (length old) s) old new
      else hd s # ReplaceAll (tl s) old new)"
  by pat_completeness auto
termination
  by (relation "measure (\<lambda>(s, old, new). length s)") auto

declare ReplaceAll.simps [simp del]

subsection \<open>\<^verbatim>\<open>normalizeCommand\<close> and \<^verbatim>\<open>prefixMatchByWords\<close>\<close>

definition normalizeCommand :: "string \<Rightarrow> string" where
  "normalizeCommand s0 =
     (let s = TrimSpace s0 in
      if s = [] then s
      else
        let s = ReplaceAll s [CHR 0x0D, CHR 0x0A] [CHR 0x0A];
            s = ReplaceAll s [CHR 0x09] [CHR 0x20];
            s = Join (Fields s) [CHR 0x20]
        in ToLower s)"

function words_loop :: "nat \<Rightarrow> string list \<Rightarrow> string list \<Rightarrow> bool" where
  \<comment> \<open>\<^verbatim>\<open>for i := 0; i < len(in); i++ { if !strings.HasPrefix(cand[i], in[i]) { return false } }
      return true\<close>; it is entered only with \<open>length inw \<le> length cand\<close>\<close>
  "words_loop i inw cand =
     (if i < length inw
      then (if \<not> HasPrefix (cand ! i) (inw ! i) then False else words_loop (i + 1) inw cand)
      else True)"
  by pat_completeness auto
termination
  by (relation "measure (\<lambda>(i, inw, cand). length inw - i)") auto

declare words_loop.simps [simp del]

definition prefixMatchByWords :: "string \<Rightarrow> string \<Rightarrow> bool" where
  "prefixMatchByWords input candidate =
     (let inw = Fields (normalizeCommand input);
          cand = Fields (normalizeCommand candidate)
      in if length inw = 0 then False
         else if length cand < length inw then False
         else words_loop 0 inw cand)"

text \<open>
  The positional-prefix rule in the words of the specification, for comparison with
  \<^const>\<open>prefixMatchByWords\<close>: both sides normalised and split into words; the candidate has
  at least as many words as the input; every word of the input is a literal prefix of the
  candidate's word at the same index; and an input with no word matches nothing.
\<close>

definition spec_prefix_match :: "string \<Rightarrow> string \<Rightarrow> bool" where
  "spec_prefix_match input candidate =
     (let inw = Fields (normalizeCommand input);
          cand = Fields (normalizeCommand candidate)
      in inw \<noteq> [] \<and> length inw \<le> length cand
         \<and> (\<forall>i < length inw. prefix (inw ! i) (cand ! i)))"

subsection \<open>The record store\<close>

text \<open>
  Modelled from the spec: \<^verbatim>\<open>model.SimDeviceCommand\<close>, the persisted record, whose
  declaration is not part of the handler file. The fields are the ones the handlers
  read and write (\<^verbatim>\<open>ID\<close>, \<^verbatim>\<open>Namespace\<close>, \<^verbatim>\<open>DeviceName\<close>, \<^verbatim>\<open>Command\<close>,
  \<^verbatim>\<open>Output\<close>, \<^verbatim>\<open>Enabled\<close>) and the time stamp \<^verbatim>\<open>updated_at\<close> that the list
  query orders by; the id is assigned by the store. The handlers bind a request body
  to the same struct, so a request is a value of this type too.
\<close>

record SimDeviceCommand =
  ID :: nat
  Namespace :: string
  DeviceName :: string
  Command :: string
  Output :: string
  Enabled :: bool
  UpdatedAt :: nat

datatype db_error = ErrRecordNotFound | ErrBusy

text \<open>
  The table behind \<^verbatim>\<open>database.GetDB()\<close>: its rows in ascending order of the primary
  key, the next id the store hands out, and a clock for the time stamps. Store calls can
  fail with a transient error: \<open>busy\<close> lists, for the store calls still to come, whether
  each attempt fails (a call beyond the end of the list succeeds), and \<open>calls\<close> counts
  the attempts made so far.
\<close>

record store =
  rows :: "SimDeviceCommand list"
  next_id :: nat
  clock :: nat
  busy :: "bool list"
  calls :: nat

definition attempt :: "store \<Rightarrow> bool \<times> store" where
  "attempt s =
     (case busy s of
        [] \<Rightarrow> (False, s\<lparr>calls := calls s + 1\<rparr>)
      | b # bs \<Rightarrow> (b, s\<lparr>busy := bs, calls := calls s + 1\<rparr>))"

definition First :: "(SimDeviceCommand \<Rightarrow> bool) \<Rightarrow> store \<Rightarrow> (db_error + SimDeviceCommand) \<times> store" where
  \<comment> \<open>\<^verbatim>\<open>db.Where(...).First(&x)\<close>: the matching row of least id, or \<^verbatim>\<open>ErrRecordNotFound\<close>\<close>
  "First P s =
     (case attempt s of
        (True, s') \<Rightarrow> (Inl ErrBusy, s')
      | (False, s') \<Rightarrow>
          (case find P (rows s') of
             None \<Rightarrow> (Inl ErrRecordNotFound, s')
           | Some r \<Rightarrow> (Inr r, s')))"

definition Find :: "(SimDeviceCommand \<Rightarrow> bool) \<Rightarrow> store \<Rightarrow> (db_error + SimDeviceCommand list) \<times> store" where
  \<comment> \<open>\<^verbatim>\<open>q.Find(&items)\<close>: every matching row, in table order\<close>
  "Find P s =
     (case attempt s of
        (True, s') \<Rightarrow> (Inl ErrBusy, s')
      | (False, s') \<Rightarrow> (Inr (filter P (rows s')), s'))"

text \<open>
  The update map \<^verbatim>\<open>map[string]interface{}\<close> of \<^verbatim>\<open>Updates\<close>: a column is assigned
  exactly when its key is present.
\<close>

record update_map =
  set_namespace :: "string option"
  set_device_name :: "string option"
  set_command :: "string option"
  set_output :: "string option"
  set_enabled :: "bool option"

definition no_updates :: update_map where
  "no_updates = \<lparr>set_namespace = None, set_device_name = None, set_command = None,
                 set_output = None, set_enabled = None\<rparr>"

definition assign :: "update_map \<Rightarrow> nat \<Rightarrow> SimDeviceCommand \<Rightarrow> SimDeviceCommand" where
  "assign u now r =
     r\<lparr>Namespace := (case set_namespace u of None \<Rightarrow> Namespace r | Some v \<Rightarrow> v),
       DeviceName := (case set_device_name u of None \<Rightarrow> DeviceName r | Some v \<Rightarrow> v),
       Command := (case set_command u of None \<Rightarrow> Command r | Some v \<Rightarrow> v),
       Output := (case set_output u of None \<Rightarrow> Output r | Some v \<Rightarrow> v),
       Enabled := (case set_enabled u of None \<Rightarrow> Enabled r | Some v \<Rightarrow> v),
       UpdatedAt := now\<rparr>"

definition Updates :: "SimDeviceCommand \<Rightarrow> update_map \<Rightarrow> store \<Rightarrow> (db_error + SimDeviceCommand) \<times> store" where
  \<comment> \<open>\<^verbatim>\<open>d.Model(&x).Updates(m)\<close>: assigns the columns of \<open>m\<close> in the row whose id is
      \<open>x\<close>'s, and in the struct \<open>x\<close> itself, which is returned\<close>
  "Updates x u s =
     (case attempt s of
        (True, s') \<Rightarrow> (Inl ErrBusy, s')
      | (False, s') \<Rightarrow>
          (Inr (assign u (clock s') x),
           s'\<lparr>rows := map (\<lambda>r. if ID r = ID x then assign u (clock s') r else r) (rows s'),
              clock := clock s' + 1\<rparr>))"

definition Create :: "SimDeviceCommand \<Rightarrow> store \<Rightarrow> (db_error + SimDeviceCommand) \<times> store" where
  \<comment> \<open>\<^verbatim>\<open>d.Create(&x)\<close>: appends the row under a fresh id, which is written to \<open>x\<close>\<close>
  "Create x s =
     (case attempt s of
        (True, s') \<Rightarrow> (Inl ErrBusy, s')
      | (False, s') \<Rightarrow>
          (let x' = x\<lparr>ID := next_id s', UpdatedAt := clock s'\<rparr>
           in (Inr x', s'\<lparr>rows := rows s' @ [x'], next_id := next_id s' + 1,
                          clock := clock s' + 1\<rparr>)))"

definition Delete :: "int \<Rightarrow> store \<Rightarrow> (db_error + unit) \<times> store" where
  \<comment> \<open>\<^verbatim>\<open>d.Delete(&model.SimDeviceCommand{}, id)\<close>: removes the row of that id; deleting
      no row is not an error\<close>
  "Delete i s =
     (case attempt s of
        (True, s') \<Rightarrow> (Inl ErrBusy, s')
      | (False, s') \<Rightarrow>
          (Inr (), s'\<lparr>rows := filter (\<lambda>r. int (ID r) \<noteq> i) (rows s')\<rparr>))"

text \<open>
  Modelled from the spec: \<^verbatim>\<open>database.WithRetry(operation, maxAttempts, delay)\<close>, which
  is not part of the handler file: it runs the operation again after a transient failure,
  \<open>maxAttempts\<close> times at most, and surfaces the last error once they are used up.
  The delay between attempts has no effect on the store. The handlers call it with
  \<open>maxAttempts = 6\<close>; below two attempts the operation is run once.
\<close>

fun WithRetry :: "(store \<Rightarrow> (db_error + 'a) \<times> store) \<Rightarrow> nat \<Rightarrow> store \<Rightarrow> (db_error + 'a) \<times> store" where
  "WithRetry operation (Suc (Suc n)) s =
     (case operation s of
        (Inl e, s') \<Rightarrow> WithRetry operation (Suc n) s'
      | (Inr v, s') \<Rightarrow> (Inr v, s'))"
| "WithRetry operation n s = operation s"

subsection \<open>Responses\<close>

text \<open>
  A response is the HTTP status, the \<^verbatim>\<open>code\<close> field of the JSON body and its
  \<^verbatim>\<open>data\<close>. The \<^verbatim>\<open>message\<close> field is left out: it is a fixed text for people, and in
  the match handler it repeats the match type.
\<close>

datatype payload =
    NoData
  | Record SimDeviceCommand
  | Match string string  \<comment> \<open>\<^verbatim>\<open>match_type\<close> and \<^verbatim>\<open>output\<close>\<close>

record response =
  status :: nat
  code :: string
  data :: payload

definition reply :: "nat \<Rightarrow> string \<Rightarrow> payload \<Rightarrow> response" where
  "reply st c d = \<lparr>status = st, code = c, data = d\<rparr>"

subsection \<open>The handlers\<close>

text \<open>
  A handler takes what gin hands it and the store, and returns the response with the
  store afterwards. A request body is \<open>None\<close> when \<^verbatim>\<open>ShouldBindJSON\<close> fails; the
  path parameter \<^verbatim>\<open>id\<close> is the integer \<^verbatim>\<open>strconv.Atoi\<close> returns (0 when it fails).
\<close>

definition same_command :: "string \<Rightarrow> string \<Rightarrow> string \<Rightarrow> SimDeviceCommand \<Rightarrow> bool" where
  \<comment> \<open>\<^verbatim>\<open>namespace = ? AND device_name = ? AND LOWER(command) = LOWER(?)\<close>\<close>
  "same_command ns dev cmd r =
     (Namespace r = ns \<and> DeviceName r = dev \<and> ToLower (Command r) = ToLower cmd)"

definition CreateSimDeviceCmd :: "SimDeviceCommand option \<Rightarrow> store \<Rightarrow> response \<times> store" where
  \<comment> \<open>lines 47 to 86: bind, trim, validate, default the flag, look the key up, then
      update the record found or insert the request\<close>
  "CreateSimDeviceCmd body s =
     (case body of
        None \<Rightarrow> (reply 400 ''INVALID_PARAMS'' NoData, s)
      | Some req0 \<Rightarrow>
          (let req = req0\<lparr>Namespace := TrimSpace (Namespace req0),
                          DeviceName := TrimSpace (DeviceName req0),
                          Command := TrimSpace (Command req0)\<rparr>
           in if Namespace req = [] \<or> DeviceName req = [] \<or> Command req = []
              then (reply 400 ''MISSING_FIELDS'' NoData, s)
              else
                (let req = (if \<not> Enabled req then req\<lparr>Enabled := True\<rparr> else req)
                 in (case First (same_command (Namespace req) (DeviceName req) (Command req)) s of
                       (Inr existing, s1) \<Rightarrow>
                         (let update = no_updates\<lparr>set_output := Some (Output req),
                                                   set_enabled := Some (Enabled req)\<rparr>
                          in (case WithRetry (Updates existing update) 6 s1 of
                                (Inl e, s2) \<Rightarrow> (reply 500 ''UPSERT_FAILED'' NoData, s2)
                              | (Inr existing', s2) \<Rightarrow>
                                  (reply 200 ''SUCCESS'' (Record existing'), s2)))
                     | (Inl e, s1) \<Rightarrow>
                         (case WithRetry (Create req) 6 s1 of
                            (Inl e, s2) \<Rightarrow> (reply 500 ''CREATE_FAILED'' NoData, s2)
                          | (Inr req', s2) \<Rightarrow> (reply 201 ''SUCCESS'' (Record req'), s2))))))"

definition GetSimDeviceCmd :: "int \<Rightarrow> store \<Rightarrow> response \<times> store" where
  \<comment> \<open>lines 120 to 134; any error of the lookup is answered as not-found\<close>
  "GetSimDeviceCmd i s =
     (if i \<le> 0 then (reply 400 ''INVALID_ID'' NoData, s)
      else case First (\<lambda>r. int (ID r) = i) s of
             (Inl e, s1) \<Rightarrow> (reply 404 ''NOT_FOUND'' NoData, s1)
           | (Inr item, s1) \<Rightarrow> (reply 200 ''SUCCESS'' (Record item), s1))"

definition merge_into :: "SimDeviceCommand \<Rightarrow> SimDeviceCommand \<Rightarrow> SimDeviceCommand \<Rightarrow> store \<Rightarrow> response \<times> store" where
  \<comment> \<open>the merge branch of \<^verbatim>\<open>UpdateSimDeviceCmd\<close>, lines 167 to 178: the other record
      takes the output and the flag, the current record is deleted, and a failed delete is
      ignored\<close>
  "merge_into other item req s =
     (let upd = no_updates\<lparr>set_output := Some (if TrimSpace (Output req) \<noteq> [] then Output req
                                                 else Output item),
                           set_enabled := Some (Enabled req)\<rparr>
      in case WithRetry (Updates other upd) 6 s of
           (Inl e, s1) \<Rightarrow> (reply 500 ''MERGE_FAILED'' NoData, s1)
         | (Inr other', s1) \<Rightarrow>
             (case WithRetry (Delete (int (ID item))) 6 s1 of
                (_, s2) \<Rightarrow> (reply 200 ''SUCCESS'' (Record other'), s2)))"

definition update_item :: "SimDeviceCommand \<Rightarrow> SimDeviceCommand \<Rightarrow> string \<Rightarrow> string \<Rightarrow> string \<Rightarrow> store \<Rightarrow> response \<times> store" where
  \<comment> \<open>the normal branch of \<^verbatim>\<open>UpdateSimDeviceCmd\<close>, lines 181 to 193\<close>
  "update_item item req newNS newDev newCmd s =
     (let update = no_updates
            \<lparr>set_namespace := (if newNS \<noteq> Namespace item then Some newNS else None),
             set_device_name := (if newDev \<noteq> DeviceName item then Some newDev else None),
             set_command := (if newCmd \<noteq> Command item then Some newCmd else None),
             set_output := (if TrimSpace (Output req) \<noteq> [] then Some (Output req) else None),
             set_enabled := Some (Enabled req)\<rparr>
      in case WithRetry (Updates item update) 6 s of
           (Inl e, s1) \<Rightarrow> (reply 500 ''UPDATE_FAILED'' NoData, s1)
         | (Inr item', s1) \<Rightarrow> (reply 200 ''SUCCESS'' (Record item'), s1))"

definition UpdateSimDeviceCmd :: "int \<Rightarrow> SimDeviceCommand option \<Rightarrow> store \<Rightarrow> response \<times> store" where
  \<comment> \<open>lines 137 to 166: the id, the body, the record of that id, the prospective key, and
      the lookup of another record under it (\<^verbatim>\<open>err == nil && other.ID != item.ID\<close>)\<close>
  "UpdateSimDeviceCmd i body s =
     (if i \<le> 0 then (reply 400 ''INVALID_ID'' NoData, s)
      else case body of
        None \<Rightarrow> (reply 400 ''INVALID_PARAMS'' NoData, s)
      | Some req \<Rightarrow>
          (case First (\<lambda>r. int (ID r) = i) s of
             (Inl e, s1) \<Rightarrow> (reply 404 ''NOT_FOUND'' NoData, s1)
           | (Inr item, s1) \<Rightarrow>
               (let newNS = TrimSpace (Namespace req);
                    newNS = (if newNS = [] then Namespace item else newNS);
                    newDev = TrimSpace (DeviceName req);
                    newDev = (if newDev = [] then DeviceName item else newDev);
                    newCmd = TrimSpace (Command req);
                    newCmd = (if newCmd = [] then Command item else newCmd)
                in (case First (same_command newNS newDev newCmd) s1 of
                      (Inr other, s2) \<Rightarrow>
                        (if ID other \<noteq> ID item then merge_into other item req s2
                         else update_item item req newNS newDev newCmd s2)
                    | (Inl e, s2) \<Rightarrow> update_item item req newNS newDev newCmd s2))))"

definition DeleteSimDeviceCmd :: "int \<Rightarrow> store \<Rightarrow> response \<times> store" where
  \<comment> \<open>lines 197 to 211: no lookup, the delete goes to the store at once\<close>
  "DeleteSimDeviceCmd i s =
     (if i \<le> 0 then (reply 400 ''INVALID_ID'' NoData, s)
      else case WithRetry (Delete i) 6 s of
             (Inl e, s1) \<Rightarrow> (reply 500 ''DELETE_FAILED'' NoData, s1)
           | (Inr u, s1) \<Rightarrow> (reply 200 ''SUCCESS'' NoData, s1))"

record match_request =
  mNamespace :: string
  mDeviceName :: string
  mCommand :: string
  mEnabledOnly :: bool

definition in_scope :: "string \<Rightarrow> string \<Rightarrow> bool \<Rightarrow> SimDeviceCommand \<Rightarrow> bool" where
  \<comment> \<open>\<^verbatim>\<open>namespace = ? AND device_name = ?\<close>, and \<^verbatim>\<open>enabled = 1\<close> when
      \<^verbatim>\<open>EnabledOnly\<close> is set\<close>
  "in_scope ns dev enabledOnly r =
     (Namespace r = ns \<and> DeviceName r = dev \<and> (if enabledOnly then Enabled r else True))"

fun scan :: "string \<Rightarrow> string \<Rightarrow> SimDeviceCommand list \<Rightarrow> SimDeviceCommand list
             \<Rightarrow> SimDeviceCommand option \<times> SimDeviceCommand list" where
  \<comment> \<open>the loop over \<^verbatim>\<open>items\<close>, lines 245 to 254: the exact match found, if any
      (the loop breaks there), and the candidates collected up to there\<close>
  "scan input inNorm [] candidates = (None, candidates)"
| "scan input inNorm (it # items) candidates =
     (let cmdNorm = normalizeCommand (Command it)
      in if inNorm = cmdNorm then (Some it, candidates)
         else if prefixMatchByWords input (Command it)
              then scan input inNorm items (candidates @ [it])
              else scan input inNorm items candidates)"

definition match_response :: "SimDeviceCommand option \<Rightarrow> SimDeviceCommand list \<Rightarrow> response" where
  \<comment> \<open>what \<^verbatim>\<open>MatchSimDeviceCmd\<close> answers after the loop, lines 256 to 273\<close>
  "match_response exact candidates =
     (case exact of
        Some e \<Rightarrow> reply 200 ''SUCCESS'' (Match ''exact'' (Output e))
      | None \<Rightarrow>
          if length candidates = 1
          then reply 200 ''SUCCESS'' (Match ''partial_single'' (Output (candidates ! 0)))
          else if length candidates > 1
          then (let lines = [''which command do you mean?'']
                        @ map (\<lambda>it. '' -- '' @ TrimSpace (Command it)) candidates
                in reply 200 ''SUCCESS'' (Match ''partial_multi'' (Join lines [CHR 0x0A])))
          else reply 200 ''SUCCESS'' (Match ''none'' ''unspport command''))"

definition MatchSimDeviceCmd :: "match_request option \<Rightarrow> store \<Rightarrow> response \<times> store" where
  \<comment> \<open>lines 214 to 242\<close>
  "MatchSimDeviceCmd body s =
     (case body of
        None \<Rightarrow> (reply 400 ''INVALID_PARAMS'' NoData, s)
      | Some req \<Rightarrow>
          (let ns = TrimSpace (mNamespace req);
               dev = TrimSpace (mDeviceName req);
               input = TrimSpace (mCommand req)
           in if ns = [] \<or> dev = [] \<or> input = []
              then (reply 400 ''MISSING_FIELDS'' NoData, s)
              else
                (case Find (in_scope ns dev (mEnabledOnly req)) s of
                   (Inl e, s1) \<Rightarrow> (reply 500 ''DB_ERROR'' NoData, s1)
                 | (Inr items, s1) \<Rightarrow>
                     (case scan input (normalizeCommand input) items [] of
                        (exact, candidates) \<Rightarrow> (match_response exact candidates, s1)))))"

subsection \<open>Abbreviations for the statements\<close>

text \<open>
  The statements below use a few abbreviations. A body passes the validation of
  \<^const>\<open>CreateSimDeviceCmd\<close> when \<open>valid_body\<close> holds; \<open>key_of req\<close> is the
  lookup of the create handler for that body, \<open>new_key item req\<close> the lookup of the update
  handler for the record \<open>item\<close> and the body \<open>req\<close> (blank fields fall back to the
  record's); \<open>created\<close> is the row a create request adds, \<open>merged\<close> the row a merge
  leaves; \<open>same_table\<close> says that two stores hold the same table, and \<open>commands\<close>
  lists the stored command texts.
\<close>

definition valid_body :: "SimDeviceCommand \<Rightarrow> bool" where
  "valid_body req = (TrimSpace (Namespace req) \<noteq> [] \<and> TrimSpace (DeviceName req) \<noteq> []
                     \<and> TrimSpace (Command req) \<noteq> [])"

definition key_of :: "SimDeviceCommand \<Rightarrow> SimDeviceCommand \<Rightarrow> bool" where
  "key_of req = same_command (TrimSpace (Namespace req)) (TrimSpace (DeviceName req))
                  (TrimSpace (Command req))"

definition new_key :: "SimDeviceCommand \<Rightarrow> SimDeviceCommand \<Rightarrow> SimDeviceCommand \<Rightarrow> bool" where
  "new_key item req =
     same_command
       (if TrimSpace (Namespace req) = [] then Namespace item else TrimSpace (Namespace req))
       (if TrimSpace (DeviceName req) = [] then DeviceName item else TrimSpace (DeviceName req))
       (if TrimSpace (Command req) = [] then Command item else TrimSpace (Command req))"

definition created :: "SimDeviceCommand \<Rightarrow> store \<Rightarrow> SimDeviceCommand" where
  "created req s =
     \<lparr>ID = next_id s, Namespace = TrimSpace (Namespace req),
      DeviceName = TrimSpace (DeviceName req), Command = TrimSpace (Command req),
      Output = Output req, Enabled = True, UpdatedAt = clock s\<rparr>"

definition merged :: "SimDeviceCommand \<Rightarrow> SimDeviceCommand \<Rightarrow> SimDeviceCommand \<Rightarrow> nat \<Rightarrow> SimDeviceCommand" where
  "merged other item req now =
     other\<lparr>Output := (if TrimSpace (Output req) \<noteq> [] then Output req else Output item),
            Enabled := Enabled req, UpdatedAt := now\<rparr>"

definition same_table :: "store \<Rightarrow> store \<Rightarrow> bool" where
  "same_table s s' = (rows s' = rows s \<and> next_id s' = next_id s \<and> clock s' = clock s)"

definition commands :: "store \<Rightarrow> string list" where
  "commands s = map Command (rows s)"

subsection \<open>Example data\<close>

text \<open>Rows, stores and requests of one device, for the concrete instances below.\<close>

definition ex_row :: "nat \<Rightarrow> string \<Rightarrow> string \<Rightarrow> SimDeviceCommand" where
  "ex_row i cmd out = \<lparr>ID = i, Namespace = ''lab'', DeviceName = ''r1'', Command = cmd,
                        Output = out, Enabled = True, UpdatedAt = 0\<rparr>"

definition ex_store :: "SimDeviceCommand list \<Rightarrow> store" where
  "ex_store rs = \<lparr>rows = rs, next_id = Suc (length rs), clock = 0, busy = [], calls = 0\<rparr>"

definition ex_match :: "string \<Rightarrow> match_request" where
  "ex_match cmd = \<lparr>mNamespace = ''lab'', mDeviceName = ''r1'', mCommand = cmd,
                    mEnabledOnly = False\<rparr>"

definition ex_body :: "string \<Rightarrow> string \<Rightarrow> bool \<Rightarrow> SimDeviceCommand" where
  "ex_body cmd out en = \<lparr>ID = 0, Namespace = ''lab'', DeviceName = ''r1'', Command = cmd,
                          Output = out, Enabled = en, UpdatedAt = 0\<rparr>"

section \<open>Properties\<close>

subsection \<open>Strings: prefixes, trimming, lower-casing\<close>


lemma HasPrefix_prefix: "HasPrefix s pre = prefix pre s"
  unfolding HasPrefix_def
  by (metis append_eq_conv_conj prefix_def prefix_length_le)

lemma words_loop_all:
  "words_loop i inw cand = (\<forall>j. i \<le> j \<and> j < length inw \<longrightarrow> HasPrefix (cand ! j) (inw ! j))"
proof (induction i inw cand rule: words_loop.induct)
  case (1 i inw cand)
  show ?case
  proof (cases "i < length inw")
    case False
    then show ?thesis by (auto simp add: words_loop.simps[of i])
  next
    case True
    show ?thesis
    proof (cases "HasPrefix (cand ! i) (inw ! i)")
      case False
      then show ?thesis using True by (auto simp add: words_loop.simps[of i])
    next
      case hp: True
      have "words_loop i inw cand = words_loop (i + 1) inw cand"
        using True hp by (simp add: words_loop.simps[of i])
      also have "\<dots> = (\<forall>j. i + 1 \<le> j \<and> j < length inw \<longrightarrow> HasPrefix (cand ! j) (inw ! j))"
        using "1.IH" True hp by simp
      also have "\<dots> = (\<forall>j. i \<le> j \<and> j < length inw \<longrightarrow> HasPrefix (cand ! j) (inw ! j))"
      proof (intro iffI allI impI)
        fix j assume a: "\<forall>j. i + 1 \<le> j \<and> j < length inw \<longrightarrow> HasPrefix (cand ! j) (inw ! j)"
          and b: "i \<le> j \<and> j < length inw"
        show "HasPrefix (cand ! j) (inw ! j)"
        proof (cases "j = i")
          case True
          then show ?thesis using hp by simp
        next
          case False
          then have "i + 1 \<le> j" using b by simp
          then show ?thesis using a b by blast
        qed
      next
        fix j assume a: "\<forall>j. i \<le> j \<and> j < length inw \<longrightarrow> HasPrefix (cand ! j) (inw ! j)"
          and b: "i + 1 \<le> j \<and> j < length inw"
        then have "i \<le> j \<and> j < length inw" by simp
        then show "HasPrefix (cand ! j) (inw ! j)" using a by blast
      qed
      finally show ?thesis .
    qed
  qed
qed


lemma toLowerByte_code:
  "65 \<le> (of_char c :: nat) \<Longrightarrow> (of_char c :: nat) \<le> 90
   \<Longrightarrow> (of_char (toLowerByte c) :: nat) = of_char c + 32"
  by (simp add: toLowerByte_def)

lemma isSpace_code: "isSpace c \<Longrightarrow> (of_char c :: nat) \<in> {9, 10, 11, 12, 13, 32}"
  by (auto simp add: isSpace_def)

lemma toLowerByte_idem: "toLowerByte (toLowerByte c) = toLowerByte c"
proof (cases "65 \<le> (of_char c :: nat) \<and> (of_char c :: nat) \<le> 90")
  case True
  then have "(of_char (toLowerByte c) :: nat) = of_char c + 32"
    by (simp add: toLowerByte_code)
  then have "\<not> (of_char (toLowerByte c) :: nat) \<le> 90" using True by simp
  then show ?thesis by (simp add: toLowerByte_def[of "toLowerByte c"])
next
  case False
  then show ?thesis by (auto simp add: toLowerByte_def)
qed

lemma isSpace_toLowerByte: "isSpace (toLowerByte c) = isSpace c"
proof (cases "65 \<le> (of_char c :: nat) \<and> (of_char c :: nat) \<le> 90")
  case True
  then have e: "(of_char (toLowerByte c) :: nat) = of_char c + 32"
    by (simp add: toLowerByte_code)
  have "\<not> isSpace c" using True isSpace_code[of c] by auto
  moreover have "\<not> isSpace (toLowerByte c)"
    using True e isSpace_code[of "toLowerByte c"] by auto
  ultimately show ?thesis by simp
next
  case False
  then show ?thesis by (auto simp add: toLowerByte_def)
qed

lemma ToLower_idem: "ToLower (ToLower s) = ToLower s"
  by (simp add: ToLower_def toLowerByte_idem)

lemma all_dropWhile: "(\<forall>x \<in> set (dropWhile P xs). P x) \<longleftrightarrow> (\<forall>x \<in> set xs. P x)"
  by (induction xs) auto

lemma TrimSpace_Nil_iff: "TrimSpace s = [] \<longleftrightarrow> (\<forall>c \<in> set s. isSpace c)"
  by (simp add: TrimSpace_def all_dropWhile)

lemma TrimSpace_id:
  "s \<noteq> [] \<Longrightarrow> \<not> isSpace (hd s) \<Longrightarrow> \<not> isSpace (last s) \<Longrightarrow> TrimSpace s = s"
proof -
  assume a: "s \<noteq> []" "\<not> isSpace (hd s)" "\<not> isSpace (last s)"
  then have "dropWhile isSpace s = s" by (cases s) auto
  moreover have "dropWhile isSpace (rev s) = rev s"
    using a by (cases "rev s") (auto simp add: last_rev[symmetric] hd_rev)
  ultimately show ?thesis by (simp add: TrimSpace_def)
qed

lemma last_dropWhile: "dropWhile P xs \<noteq> [] \<Longrightarrow> last (dropWhile P xs) = last xs"
  by (induction xs) (auto split: if_splits)

lemma TrimSpace_ends:
  assumes "TrimSpace s \<noteq> []"
  shows "\<not> isSpace (hd (TrimSpace s)) \<and> \<not> isSpace (last (TrimSpace s))"
proof -
  let ?d = "dropWhile isSpace s"
  let ?r = "dropWhile isSpace (rev ?d)"
  have r: "?r \<noteq> []" using assms by (simp add: TrimSpace_def)
  have d: "?d \<noteq> []"
  proof
    assume e: "?d = []"
    have "dropWhile isSpace (rev ([]::string)) = []" by simp
    with e r show False by metis
  qed
  have l: "\<not> isSpace (hd ?r)" using r by (rule hd_dropWhile)
  have h: "\<not> isSpace (hd ?d)" using d by (rule hd_dropWhile)
  have "last ?r = last (rev ?d)" using r by (rule last_dropWhile)
  also have "\<dots> = hd ?d" using d by (simp add: last_rev)
  finally have "\<not> isSpace (last ?r)" using h by simp
  moreover have "hd (TrimSpace s) = last ?r" using r by (simp add: TrimSpace_def hd_rev)
  moreover have "last (TrimSpace s) = hd ?r" using r by (simp add: TrimSpace_def last_rev)
  ultimately show ?thesis using l by simp
qed

lemma TrimSpace_idem: "TrimSpace (TrimSpace s) = TrimSpace s"
proof (cases "TrimSpace s = []")
  case True
  have "TrimSpace [] = []" by (simp add: TrimSpace_def)
  with True show ?thesis by simp
next
  case False
  then show ?thesis using TrimSpace_ends[of s] by (simp add: TrimSpace_id)
qed

subsection \<open>Words: \<^const>\<open>Fields\<close>, \<^const>\<open>Join\<close> and \<^const>\<open>ReplaceAll\<close>\<close>


lemma Fields_unfold_Nil: "dropWhile isSpace s = [] \<Longrightarrow> Fields s = []"
proof -
  assume n: "dropWhile isSpace s = []"
  have "Fields s = (case dropWhile isSpace s of [] \<Rightarrow> []
          | c # cs \<Rightarrow> takeWhile (\<lambda>x. \<not> isSpace x) (c # cs)
                       # Fields (dropWhile (\<lambda>x. \<not> isSpace x) (c # cs)))"
    by (rule Fields.simps)
  also have "\<dots> = []" by (simp only: n list.case)
  finally show ?thesis .
qed

lemma Fields_unfold_Cons:
  "dropWhile isSpace s = c # cs \<Longrightarrow>
   Fields s = takeWhile (\<lambda>x. \<not> isSpace x) (c # cs)
              # Fields (dropWhile (\<lambda>x. \<not> isSpace x) (c # cs))"
proof -
  assume n: "dropWhile isSpace s = c # cs"
  have "Fields s = (case dropWhile isSpace s of [] \<Rightarrow> []
          | c # cs \<Rightarrow> takeWhile (\<lambda>x. \<not> isSpace x) (c # cs)
                       # Fields (dropWhile (\<lambda>x. \<not> isSpace x) (c # cs)))"
    by (rule Fields.simps)
  also have "\<dots> = takeWhile (\<lambda>x. \<not> isSpace x) (c # cs)
              # Fields (dropWhile (\<lambda>x. \<not> isSpace x) (c # cs))"
    by (simp only: n list.case)
  finally show ?thesis .
qed

lemma Fields_Nil_iff: "Fields s = [] \<longleftrightarrow> (\<forall>c \<in> set s. isSpace c)"
proof (cases "dropWhile isSpace s")
  case Nil
  then have "Fields s = []" by (rule Fields_unfold_Nil)
  moreover have "\<forall>c \<in> set s. isSpace c" using Nil by (simp add: dropWhile_eq_Nil_conv)
  ultimately show ?thesis by simp
next
  case (Cons c cs)
  then have "Fields s \<noteq> []" by (simp only: Fields_unfold_Cons[OF Cons] list.simps not_False_eq_True)
  moreover have "\<not> (\<forall>c \<in> set s. isSpace c)"
    using Cons dropWhile_eq_Nil_conv[of isSpace s] by (metis list.distinct(1))
  ultimately show ?thesis by simp
qed

lemma Fields_words: "w \<in> set (Fields s) \<Longrightarrow> word w"
proof (induction s rule: Fields.induct)
  case (1 s)
  show ?case
  proof (cases "dropWhile isSpace s")
    case Nil
    then have "Fields s = []" by (rule Fields_unfold_Nil)
    with "1.prems" show ?thesis by simp
  next
    case (Cons c cs)
    note f = Fields_unfold_Cons[OF Cons]
    have c: "\<not> isSpace c" using Cons hd_dropWhile[of isSpace s] by (metis list.distinct(1) list.sel(1))
    then have "word (takeWhile (\<lambda>x. \<not> isSpace x) (c # cs))"
      by (auto simp add: word_def dest: set_takeWhileD)
    then show ?thesis using "1.prems" "1.IH"[OF Cons] f by auto
  qed
qed

lemma Fields_space_Cons: "isSpace c \<Longrightarrow> Fields (c # s) = Fields s"
proof -
  assume c: "isSpace c"
  then have e: "dropWhile isSpace (c # s) = dropWhile isSpace s" by simp
  show ?thesis
  proof (cases "dropWhile isSpace s")
    case Nil
    then show ?thesis using e by (simp only: Fields_unfold_Nil)
  next
    case (Cons a as)
    then have "dropWhile isSpace (c # s) = a # as" using e by simp
    then show ?thesis by (simp only: Fields_unfold_Cons[OF Cons] Fields_unfold_Cons)
  qed
qed

lemma Fields_word_Nil: "word w \<Longrightarrow> Fields w = [w]"
proof -
  assume w: "word w"
  then obtain c cs where e: "w = c # cs" by (cases w) (auto simp add: word_def)
  have d: "dropWhile isSpace w = w" using w e by (simp add: word_def)
  have t: "takeWhile (\<lambda>x. \<not> isSpace x) w = w" using w by (simp add: word_def)
  have r: "dropWhile (\<lambda>x. \<not> isSpace x) w = []" using w by (simp add: word_def)
  have "Fields [] = []" by (simp add: Fields_unfold_Nil)
  moreover have "Fields w = takeWhile (\<lambda>x. \<not> isSpace x) w # Fields (dropWhile (\<lambda>x. \<not> isSpace x) w)"
    using d e Fields_unfold_Cons[of w c cs] by simp
  ultimately show ?thesis using t r by simp
qed

lemma Fields_word_space: "word w \<Longrightarrow> isSpace c \<Longrightarrow> Fields (w @ c # s) = w # Fields s"
proof -
  assume w: "word w" and c: "isSpace c"
  then obtain a as where e: "w = a # as" by (cases w) (auto simp add: word_def)
  have d: "dropWhile isSpace (w @ c # s) = w @ c # s" using w e by (simp add: word_def)
  have t: "takeWhile (\<lambda>x. \<not> isSpace x) (w @ c # s) = w"
    using w c by (simp add: word_def takeWhile_append2 takeWhile_append1)
  have r: "dropWhile (\<lambda>x. \<not> isSpace x) (w @ c # s) = c # s"
    using w c by (simp add: word_def dropWhile_append2 dropWhile_append1)
  have "dropWhile isSpace (w @ c # s) = a # (as @ c # s)" using d e by simp
  then have "Fields (w @ c # s) = takeWhile (\<lambda>x. \<not> isSpace x) (a # (as @ c # s))
               # Fields (dropWhile (\<lambda>x. \<not> isSpace x) (a # (as @ c # s)))"
    by (rule Fields_unfold_Cons)
  then have "Fields (w @ c # s) = w # Fields (c # s)"
    using t r e by simp
  then show ?thesis using c by (simp add: Fields_space_Cons)
qed

lemma Fields_Join:
  "\<forall>w \<in> set ws. word w \<Longrightarrow> Fields (Join ws [CHR 0x20]) = ws"
proof (induction ws "[CHR 0x20]" rule: Join.induct)
  case 1
  show ?case by (simp add: Fields_unfold_Nil)
next
  case (2 x)
  then show ?case by (simp add: Fields_word_Nil)
next
  case (3 x y ys)
  have sp: "isSpace (CHR 0x20)" by (simp add: isSpace_def)
  have "Fields (Join (x # y # ys) [CHR 0x20]) = x # Fields (Join (y # ys) [CHR 0x20])"
    using 3 sp by (simp add: Fields_word_space)
  then show ?case using 3 by simp
qed

lemma ToLower_Join: "ToLower (Join ws sep) = Join (map ToLower ws) (ToLower sep)"
  by (induction ws sep rule: Join.induct) (simp_all add: ToLower_def)

lemma word_ToLower: "word w \<Longrightarrow> word (ToLower w)"
  by (simp add: word_def ToLower_def isSpace_toLowerByte)

lemma Join_ends:
  "ws \<noteq> [] \<Longrightarrow> \<forall>w \<in> set ws. word w \<Longrightarrow>
   Join ws sep \<noteq> [] \<and> hd (Join ws sep) = hd (hd ws) \<and> last (Join ws sep) = last (last ws)"
  by (induction ws sep rule: Join.induct) (auto simp add: word_def)

lemma set_Join: "set (Join ws sep) \<subseteq> \<Union> (set ` set ws) \<union> set sep"
  by (induction ws sep rule: Join.induct) auto

lemma ReplaceAll_absent:
  "old \<noteq> [] \<Longrightarrow> hd old \<notin> set s \<Longrightarrow> ReplaceAll s old new = s"
proof (induction s old new rule: ReplaceAll.induct)
  case (1 s old new)
  show ?case
  proof (cases "s = []")
    case True
    then show ?thesis using "1.prems" by (subst ReplaceAll.simps) simp
  next
    case False
    have n: "take (length old) s \<noteq> old"
    proof
      assume "take (length old) s = old"
      then have "hd old = hd s" using "1.prems" False by (cases s; cases old) auto
      then show False using "1.prems" False by (cases s) auto
    qed
    have "hd old \<notin> set (tl s)" using "1.prems" False by (cases s) auto
    then have "ReplaceAll (tl s) old new = tl s"
      using "1.IH"(2) "1.prems" False n by simp
    then show ?thesis using "1.prems" False n by (subst ReplaceAll.simps) simp
  qed
qed

lemma ReplaceAll_keeps:
  "old \<noteq> [] \<Longrightarrow> c \<in> set s \<Longrightarrow> c \<notin> set old \<Longrightarrow> c \<notin> set new \<Longrightarrow> c \<in> set (ReplaceAll s old new)"
proof (induction s old new rule: ReplaceAll.induct)
  case (1 s old new)
  have ne: "s \<noteq> []" using "1.prems" by auto
  show ?case
  proof (cases "take (length old) s = old")
    case True
    have "s = old @ drop (length old) s" using True by (metis append_take_drop_id)
    then have "c \<in> set (drop (length old) s)" using "1.prems" by (metis Un_iff set_append)
    then have "c \<in> set (ReplaceAll (drop (length old) s) old new)"
      using "1.IH"(1) "1.prems" ne True by simp
    then show ?thesis using "1.prems" ne True by (subst ReplaceAll.simps) simp
  next
    case False
    show ?thesis
    proof (cases "c = hd s")
      case True
      then show ?thesis using "1.prems" ne False by (subst ReplaceAll.simps) simp
    next
      case nh: False
      then have "c \<in> set (tl s)" using "1.prems" ne by (cases s) auto
      then have "c \<in> set (ReplaceAll (tl s) old new)"
        using "1.IH"(2) "1.prems" ne False by simp
      then show ?thesis using "1.prems" ne False by (subst ReplaceAll.simps) simp
    qed
  qed
qed

subsection \<open>The shape of a normalised command\<close>

lemma normalizeCommand_blank: "TrimSpace s = [] \<Longrightarrow> normalizeCommand s = []"
  by (simp add: normalizeCommand_def)

lemma ToLower_space: "ToLower [CHR 0x20] = [CHR 0x20]"
  by (simp add: ToLower_def toLowerByte_def)

lemma normalizeCommand_words:
  assumes "TrimSpace s \<noteq> []"
  shows "\<exists>ws. ws \<noteq> [] \<and> (\<forall>w \<in> set ws. word w)
              \<and> normalizeCommand s = Join (map ToLower ws) [CHR 0x20]"
proof -
  let ?s1 = "TrimSpace s"
  let ?s2 = "ReplaceAll ?s1 [CHR 0x0D, CHR 0x0A] [CHR 0x0A]"
  let ?s3 = "ReplaceAll ?s2 [CHR 0x09] [CHR 0x20]"
  obtain c where c: "c \<in> set ?s1" "\<not> isSpace c"
    using assms TrimSpace_ends[of s] by (metis hd_in_set)
  have "c \<in> set ?s2"
    using c by (intro ReplaceAll_keeps) (auto simp add: isSpace_def)
  then have "c \<in> set ?s3"
    using c by (intro ReplaceAll_keeps) (auto simp add: isSpace_def)
  then have ne: "Fields ?s3 \<noteq> []" using c by (auto simp add: Fields_Nil_iff)
  have w: "\<forall>w \<in> set (Fields ?s3). word w" by (simp add: Fields_words)
  have "normalizeCommand s = ToLower (Join (Fields ?s3) [CHR 0x20])"
    using assms by (simp add: normalizeCommand_def)
  then have "normalizeCommand s = Join (map ToLower (Fields ?s3)) [CHR 0x20]"
    by (simp add: ToLower_Join ToLower_space)
  then show ?thesis using ne w by blast
qed

lemma normalizeCommand_canonical:
  assumes ne: "ws \<noteq> []" and w: "\<forall>w \<in> set ws. word w"
  shows "normalizeCommand (Join ws [CHR 0x20]) = Join (map ToLower ws) [CHR 0x20]"
proof -
  let ?t = "Join ws [CHR 0x20]"
  have e: "?t \<noteq> []" "hd ?t = hd (hd ws)" "last ?t = last (last ws)"
    using Join_ends[OF ne w] by auto
  have "word (hd ws)" "word (last ws)" using ne w by auto
  then have "\<not> isSpace (hd (hd ws))" "\<not> isSpace (last (last ws))"
    by (auto simp add: word_def)
  then have t1: "TrimSpace ?t = ?t" using e by (simp add: TrimSpace_id)
  have chars: "\<forall>c \<in> set ?t. \<not> isSpace c \<or> c = CHR 0x20"
    using set_Join[of ws "[CHR 0x20]"] w by (auto simp add: word_def)
  have "CHR 0x0D \<notin> set ?t" using chars by (auto simp add: isSpace_def)
  then have t2: "ReplaceAll ?t [CHR 0x0D, CHR 0x0A] [CHR 0x0A] = ?t"
    by (simp add: ReplaceAll_absent)
  have "CHR 0x09 \<notin> set ?t" using chars by (auto simp add: isSpace_def)
  then have t3: "ReplaceAll ?t [CHR 0x09] [CHR 0x20] = ?t"
    by (simp add: ReplaceAll_absent)
  have t4: "Fields ?t = ws" using w by (rule Fields_Join)
  have "normalizeCommand ?t = ToLower ?t"
    using e(1) by (simp add: normalizeCommand_def t1 t2 t3 t4)
  then show ?thesis by (simp add: ToLower_Join ToLower_space)
qed

lemma normalizeCommand_TrimSpace: "normalizeCommand (TrimSpace s) = normalizeCommand s"
  by (simp add: normalizeCommand_def TrimSpace_idem)

subsection \<open>Normalisation and positional-prefix matching\<close>

text \<open>
  C9. Normalising a normalised command changes nothing:
  \<open>normalize (normalize s) = normalize s\<close> for every string \<open>s\<close>.
\<close>

theorem normalizeCommand_idempotent:
  "normalizeCommand (normalizeCommand s) = normalizeCommand s"
proof (cases "TrimSpace s = []")
  case True
  have "TrimSpace [] = []" by (simp add: TrimSpace_def)
  then show ?thesis using True by (simp add: normalizeCommand_blank)
next
  case False
  then obtain ws where ws: "ws \<noteq> []" "\<forall>w \<in> set ws. word w"
    "normalizeCommand s = Join (map ToLower ws) [CHR 0x20]"
    using normalizeCommand_words by blast
  have "normalizeCommand (Join (map ToLower ws) [CHR 0x20])
        = Join (map ToLower (map ToLower ws)) [CHR 0x20]"
    using ws by (intro normalizeCommand_canonical) (auto simp add: word_ToLower)
  also have "\<dots> = Join (map ToLower ws) [CHR 0x20]" by (simp add: ToLower_idem comp_def)
  finally show ?thesis using ws by simp
qed


text \<open>
  C3. \<^const>\<open>prefixMatchByWords\<close> holds exactly when, both sides being normalised and
  split into words, the candidate has at least as many words as the input and each word
  of the input is a literal prefix of the candidate's word at the same index; an input
  without words matches no candidate.
\<close>

theorem prefixMatchByWords_spec:
  "prefixMatchByWords input candidate = spec_prefix_match input candidate"
  unfolding prefixMatchByWords_def spec_prefix_match_def Let_def
  by (auto simp add: words_loop_all HasPrefix_prefix)

theorem prefixMatchByWords_spec_witness:
  "spec_prefix_match ''sh ip int'' ''show ip interface brief''
   \<and> \<not> spec_prefix_match ''sh ip intx'' ''show ip interface brief''
   \<and> \<not> spec_prefix_match [] ''show ip interface brief''"
proof -
  have "prefixMatchByWords ''sh ip int'' ''show ip interface brief''" by code_simp
  moreover have "\<not> prefixMatchByWords ''sh ip intx'' ''show ip interface brief''" by code_simp
  moreover have "\<not> prefixMatchByWords [] ''show ip interface brief''" by code_simp
  ultimately show ?thesis unfolding prefixMatchByWords_spec by simp
qed

subsection \<open>The store when no call fails\<close>

lemma prefixMatchByWords_TrimSpace:
  "prefixMatchByWords (TrimSpace input) candidate = prefixMatchByWords input candidate"
  by (simp add: prefixMatchByWords_def normalizeCommand_TrimSpace)

lemma scan_no_exact:
  "\<forall>it \<in> set items. normalizeCommand (Command it) \<noteq> inNorm \<Longrightarrow>
   scan input inNorm items cands
   = (None, cands @ filter (\<lambda>it. prefixMatchByWords input (Command it)) items)"
  by (induction items arbitrary: cands) (auto simp add: Let_def)

lemma scan_exact:
  "\<forall>it \<in> set pre. normalizeCommand (Command it) \<noteq> inNorm \<Longrightarrow>
   normalizeCommand (Command r) = inNorm \<Longrightarrow>
   scan input inNorm (pre @ r # post) cands
   = (Some r, cands @ filter (\<lambda>it. prefixMatchByWords input (Command it)) pre)"
  by (induction pre arbitrary: cands) (auto simp add: Let_def)

lemma attempt_ok: "busy s = [] \<Longrightarrow> attempt s = (False, s\<lparr>calls := calls s + 1\<rparr>)"
  by (simp add: attempt_def)

lemma Find_ok:
  "busy s = [] \<Longrightarrow> Find P s = (Inr (filter P (rows s)), s\<lparr>calls := calls s + 1\<rparr>)"
  by (simp add: Find_def attempt_ok)

lemma MatchSimDeviceCmd_ok:
  assumes "busy s = []"
    and "TrimSpace (mNamespace req) \<noteq> []" and "TrimSpace (mDeviceName req) \<noteq> []"
    and "TrimSpace (mCommand req) \<noteq> []"
  shows "MatchSimDeviceCmd (Some req) s =
         (case scan (TrimSpace (mCommand req)) (normalizeCommand (mCommand req))
                 (filter (in_scope (TrimSpace (mNamespace req)) (TrimSpace (mDeviceName req))
                            (mEnabledOnly req)) (rows s)) [] of
            (exact, candidates) \<Rightarrow> (match_response exact candidates, s\<lparr>calls := calls s + 1\<rparr>))"
  using assms by (simp add: MatchSimDeviceCmd_def Let_def Find_ok normalizeCommand_TrimSpace)


lemma find_filter: "find P xs = (case filter P xs of [] \<Rightarrow> None | y # ys \<Rightarrow> Some y)"
  by (induction xs) auto

lemma First_ok:
  "busy s = [] \<Longrightarrow>
   First P s = (case find P (rows s) of None \<Rightarrow> Inl ErrRecordNotFound | Some r \<Rightarrow> Inr r,
                s\<lparr>calls := calls s + 1\<rparr>)"
  by (simp add: First_def attempt_ok split: option.splits)

lemma WithRetry_ok: "operation s = (Inr v, s') \<Longrightarrow> WithRetry operation n s = (Inr v, s')"
  by (induction operation n s rule: WithRetry.induct) auto

lemma Updates_ok:
  "busy s = [] \<Longrightarrow>
   WithRetry (Updates x u) n s =
     (Inr (assign u (clock s) x),
      s\<lparr>rows := map (\<lambda>r. if ID r = ID x then assign u (clock s) r else r) (rows s),
        clock := clock s + 1, calls := calls s + 1\<rparr>)"
  by (rule WithRetry_ok) (simp add: Updates_def attempt_ok)

lemma Create_ok:
  "busy s = [] \<Longrightarrow>
   WithRetry (Create x) n s =
     (Inr (x\<lparr>ID := next_id s, UpdatedAt := clock s\<rparr>),
      s\<lparr>rows := rows s @ [x\<lparr>ID := next_id s, UpdatedAt := clock s\<rparr>],
        next_id := next_id s + 1, clock := clock s + 1, calls := calls s + 1\<rparr>)"
  by (rule WithRetry_ok) (simp add: Create_def attempt_ok Let_def)

lemma Delete_ok:
  "busy s = [] \<Longrightarrow>
   WithRetry (Delete i) n s =
     (Inr (), s\<lparr>rows := filter (\<lambda>r. int (ID r) \<noteq> i) (rows s), calls := calls s + 1\<rparr>)"
  by (rule WithRetry_ok) (simp add: Delete_def attempt_ok)

lemma CreateSimDeviceCmd_insert:
  assumes "busy s = []" and "valid_body req" and "find (key_of req) (rows s) = None"
  shows "CreateSimDeviceCmd (Some req) s =
     (reply 201 ''SUCCESS''
        (Record \<lparr>ID = next_id s, Namespace = TrimSpace (Namespace req),
                 DeviceName = TrimSpace (DeviceName req), Command = TrimSpace (Command req),
                 Output = Output req, Enabled = True, UpdatedAt = clock s\<rparr>),
      s\<lparr>rows := rows s @ [\<lparr>ID = next_id s, Namespace = TrimSpace (Namespace req),
                 DeviceName = TrimSpace (DeviceName req), Command = TrimSpace (Command req),
                 Output = Output req, Enabled = True, UpdatedAt = clock s\<rparr>],
        next_id := next_id s + 1, clock := clock s + 1, calls := calls s + 2\<rparr>)"
  using assms
  by (cases req) (simp add: CreateSimDeviceCmd_def valid_body_def key_of_def Let_def First_ok Create_ok)

lemma CreateSimDeviceCmd_upsert:
  assumes "busy s = []" and "valid_body req" and "find (key_of req) (rows s) = Some e"
  shows "CreateSimDeviceCmd (Some req) s =
     (reply 200 ''SUCCESS'' (Record (e\<lparr>Output := Output req, Enabled := True, UpdatedAt := clock s\<rparr>)),
      s\<lparr>rows := map (\<lambda>r. if ID r = ID e
                           then r\<lparr>Output := Output req, Enabled := True, UpdatedAt := clock s\<rparr>
                           else r) (rows s),
        clock := clock s + 1, calls := calls s + 2\<rparr>)"
  using assms
  by (cases req) (simp add: CreateSimDeviceCmd_def valid_body_def key_of_def Let_def First_ok
        Updates_ok assign_def no_updates_def)

lemma same_command_frame [simp]:
  "same_command ns dev cmd (r\<lparr>Output := out, Enabled := en, UpdatedAt := t\<rparr>) = same_command ns dev cmd r"
  by (simp add: same_command_def)

lemma filter_map_frame:
  "(\<And>x. P (f x) = P x) \<Longrightarrow> filter P (map f xs) = map f (filter P xs)"
  by (induction xs) auto

lemma CreateSimDeviceCmd_one:
  assumes "busy s = []" and "valid_body req" and "length (filter (key_of req) (rows s)) \<le> 1"
  shows "\<exists>r. filter (key_of req) (rows (snd (CreateSimDeviceCmd (Some req) s))) = [r]
             \<and> Output r = Output req \<and> Enabled r
             \<and> busy (snd (CreateSimDeviceCmd (Some req) s)) = []"
proof (cases "filter (key_of req) (rows s)")
  case Nil
  then have f: "find (key_of req) (rows s) = None" by (simp add: find_filter)
  have "key_of req \<lparr>ID = next_id s, Namespace = TrimSpace (Namespace req),
                 DeviceName = TrimSpace (DeviceName req), Command = TrimSpace (Command req),
                 Output = Output req, Enabled = True, UpdatedAt = clock s\<rparr>"
    by (simp add: key_of_def same_command_def)
  then show ?thesis
    using Nil assms by (simp add: CreateSimDeviceCmd_insert[OF assms(1,2) f])
next
  case (Cons e es)
  then have es: "es = []" using assms(3) by simp
  have f: "find (key_of req) (rows s) = Some e" using Cons by (simp add: find_filter)
  have "filter (key_of req)
          (map (\<lambda>r. if ID r = ID e then r\<lparr>Output := Output req, Enabled := True, UpdatedAt := clock s\<rparr> else r) (rows s))
        = map (\<lambda>r. if ID r = ID e then r\<lparr>Output := Output req, Enabled := True, UpdatedAt := clock s\<rparr> else r)
            (filter (key_of req) (rows s))"
    by (rule filter_map_frame) (simp add: key_of_def)
  then show ?thesis
    using Cons es assms by (simp add: CreateSimDeviceCmd_upsert[OF assms(1,2) f])
qed

lemma find_only:
  assumes "x \<in> set xs" and "P x" and "\<forall>r \<in> set xs. P r \<longrightarrow> r = x"
  shows "find P xs = Some x"
  using assms
proof (induction xs)
  case Nil
  then show ?case by simp
next
  case (Cons a as)
  show ?case
  proof (cases "P a")
    case True
    then have "a = x" using Cons.prems(3) by simp
    then show ?thesis using True by simp
  next
    case False
    then have "x \<in> set as" using Cons.prems(1,2) by auto
    moreover have "\<forall>r \<in> set as. P r \<longrightarrow> r = x" using Cons.prems(3) by simp
    ultimately have "find P as = Some x" using Cons.IH Cons.prems(2) by blast
    then show ?thesis using False by simp
  qed
qed

lemma find_distinct_id:
  assumes "distinct (map ID xs)" and "x \<in> set xs"
  shows "find (\<lambda>r. int (ID r) = int (ID x)) xs = Some x"
proof (rule find_only[OF assms(2)])
  show "int (ID x) = int (ID x)" by simp
  show "\<forall>r \<in> set xs. int (ID r) = int (ID x) \<longrightarrow> r = x"
  proof (intro ballI impI)
    fix r assume "r \<in> set xs" and "int (ID r) = int (ID x)"
    then show "r = x" using assms by (simp add: distinct_map inj_on_def)
  qed
qed

lemma filter_id_distinct:
  "distinct (map ID xs) \<Longrightarrow> x \<in> set xs \<Longrightarrow> filter (\<lambda>r. ID r = ID x) xs = [x]"
proof (induction xs)
  case Nil
  then show ?case by simp
next
  case (Cons a as)
  show ?case
  proof (cases "a = x")
    case True
    have "\<forall>r \<in> set as. ID r \<noteq> ID x" using Cons.prems True by (auto simp add: image_iff)
    then have "filter (\<lambda>r. ID r = ID x) as = []" by (simp add: filter_empty_conv)
    then show ?thesis using True by simp
  next
    case False
    then have x: "x \<in> set as" using Cons.prems by simp
    then have "ID a \<noteq> ID x" using Cons.prems by (auto simp add: image_iff)
    then show ?thesis using Cons x by simp
  qed
qed

lemma merge_into_ok:
  "busy s = [] \<Longrightarrow>
   merge_into other item req s =
     (reply 200 ''SUCCESS'' (Record (merged other item req (clock s))),
      s\<lparr>rows := filter (\<lambda>r. ID r \<noteq> ID item)
                  (map (\<lambda>r. if ID r = ID other then merged r item req (clock s) else r) (rows s)),
        clock := clock s + 1, calls := calls s + 2\<rparr>)"
  by (simp add: merge_into_def Let_def Updates_ok Delete_ok assign_def no_updates_def merged_def
        cong: if_cong)

lemma UpdateSimDeviceCmd_merge:
  assumes "busy s = []" and "0 < i"
    and "find (\<lambda>r. int (ID r) = i) (rows s) = Some item"
    and "find (new_key item req) (rows s) = Some other"
    and "ID other \<noteq> ID item"
  shows "UpdateSimDeviceCmd i (Some req) s =
     (reply 200 ''SUCCESS'' (Record (merged other item req (clock s))),
      s\<lparr>rows := filter (\<lambda>r. ID r \<noteq> ID item)
                  (map (\<lambda>r. if ID r = ID other then merged r item req (clock s) else r) (rows s)),
        clock := clock s + 1, calls := calls s + 4\<rparr>)"
  using assms
  by (simp add: UpdateSimDeviceCmd_def Let_def First_ok new_key_def merge_into_ok cong: if_cong)

lemma merged_ID [simp]: "ID (merged r item req now) = ID r"
  by (simp add: merged_def)

subsection \<open>The store when calls may fail\<close>

lemma same_table_refl: "same_table s s"
  by (simp add: same_table_def)

lemma same_table_trans: "same_table s s1 \<Longrightarrow> same_table s1 s2 \<Longrightarrow> same_table s s2"
  by (simp add: same_table_def)

lemma attempt_cases: "attempt s = (b, s') \<Longrightarrow> same_table s s' \<and> calls s' = calls s + 1"
  by (cases "busy s") (auto simp add: attempt_def same_table_def)

lemma First_cases:
  assumes "First P s = (res, s')"
  shows "same_table s s' \<and> calls s' = calls s + 1
         \<and> (case res of Inr r \<Rightarrow> find P (rows s) = Some r
                        | Inl e \<Rightarrow> e = ErrBusy \<or> find P (rows s) = None)"
proof -
  obtain b s1 where a: "attempt s = (b, s1)" by (cases "attempt s")
  then have t: "same_table s s1" "calls s1 = calls s + 1" using attempt_cases by auto
  then have r: "rows s1 = rows s" by (simp add: same_table_def)
  show ?thesis
  proof (cases b)
    case True
    then show ?thesis using assms a t by (auto simp add: First_def)
  next
    case False
    then show ?thesis using assms a t r
      by (cases "find P (rows s)") (auto simp add: First_def)
  qed
qed

lemma Find_cases:
  assumes "Find P s = (res, s')"
  shows "same_table s s' \<and> (case res of Inr xs \<Rightarrow> xs = filter P (rows s) | Inl e \<Rightarrow> True)"
proof -
  obtain b s1 where a: "attempt s = (b, s1)" by (cases "attempt s")
  then have t: "same_table s s1" using attempt_cases by auto
  then have r: "rows s1 = rows s" by (simp add: same_table_def)
  show ?thesis using assms a t r by (cases b) (auto simp add: Find_def)
qed

lemma WithRetry_cases:
  "(\<And>s e s'. operation s = (Inl e, s') \<Longrightarrow> same_table s s') \<Longrightarrow>
   (\<And>s v s'. operation s = (Inr v, s') \<Longrightarrow> Q s v s') \<Longrightarrow>
   (\<And>s0 s v s'. same_table s0 s \<Longrightarrow> Q s v s' \<Longrightarrow> Q s0 v s') \<Longrightarrow>
   WithRetry operation n s = (res, s') \<Longrightarrow>
   (\<exists>e. res = Inl e \<and> same_table s s') \<or> (\<exists>v. res = Inr v \<and> Q s v s')"
proof (induction operation n s rule: WithRetry.induct)
  case (1 operation n s)
  obtain r1 s1 where o: "operation s = (r1, s1)" by (cases "operation s")
  show ?case
  proof (cases r1)
    case (Inl e)
    then have t: "same_table s s1" using o "1.prems"(1) by simp
    have w: "WithRetry operation (Suc n) s1 = (res, s')" using "1.prems"(4) o Inl by simp
    from "1.prems"(1) "1.prems"(2) "1.prems"(3) w
    have "(\<exists>e. res = Inl e \<and> same_table s1 s') \<or> (\<exists>v. res = Inr v \<and> Q s1 v s')"
      by (rule "1.IH"[OF o[symmetric] Inl])
    then show ?thesis using t same_table_trans "1.prems"(3) by blast
  next
    case (Inr v)
    then have "res = Inr v" "s' = s1" using "1.prems"(4) o by auto
    then show ?thesis using "1.prems"(2) o Inr by blast
  qed
qed (case_tac [!] res, auto)

lemma Create_step:
  assumes "Create x s = (res, s')"
  shows "case res of Inl e \<Rightarrow> same_table s s'
         | Inr v \<Rightarrow> v = x\<lparr>ID := next_id s, UpdatedAt := clock s\<rparr> \<and> rows s' = rows s @ [v]"
proof -
  obtain b s1 where a: "attempt s = (b, s1)" by (cases "attempt s")
  then have t: "same_table s s1" using attempt_cases by auto
  show ?thesis using assms a t
    by (cases b) (auto simp add: Create_def Let_def same_table_def)
qed

lemma Updates_step:
  assumes "Updates x u s = (res, s')"
  shows "case res of Inl e \<Rightarrow> same_table s s'
         | Inr v \<Rightarrow> v = assign u (clock s) x
             \<and> rows s' = map (\<lambda>r. if ID r = ID x then assign u (clock s) r else r) (rows s)"
proof -
  obtain b s1 where a: "attempt s = (b, s1)" by (cases "attempt s")
  then have t: "same_table s s1" using attempt_cases by auto
  show ?thesis using assms a t
    by (cases b) (auto simp add: Updates_def same_table_def)
qed

lemma Delete_step:
  assumes "Delete i s = (res, s')"
  shows "case res of Inl e \<Rightarrow> same_table s s'
         | Inr v \<Rightarrow> rows s' = filter (\<lambda>r. int (ID r) \<noteq> i) (rows s)"
proof -
  obtain b s1 where a: "attempt s = (b, s1)" by (cases "attempt s")
  then have t: "same_table s s1" using attempt_cases by auto
  show ?thesis using assms a t
    by (cases b) (auto simp add: Delete_def same_table_def)
qed

lemma WithRetry_Create:
  assumes "WithRetry (Create x) n s = (res, s')"
  shows "(\<exists>e. res = Inl e \<and> same_table s s')
         \<or> (res = Inr (x\<lparr>ID := next_id s, UpdatedAt := clock s\<rparr>)
            \<and> rows s' = rows s @ [x\<lparr>ID := next_id s, UpdatedAt := clock s\<rparr>])"
proof -
  let ?Q = "\<lambda>s v s'. v = x\<lparr>ID := next_id s, UpdatedAt := clock s\<rparr> \<and> rows s' = rows s @ [v]"
  have "(\<exists>e. res = Inl e \<and> same_table s s') \<or> (\<exists>v. res = Inr v \<and> ?Q s v s')"
  proof (rule WithRetry_cases[where operation = "Create x" and Q = ?Q, OF _ _ _ assms])
    fix s e s' assume "Create x s = (Inl e, s')"
    then show "same_table s s'" using Create_step[of x s "Inl e" s'] by simp
  next
    fix s v s' assume "Create x s = (Inr v, s')"
    then show "?Q s v s'" using Create_step[of x s "Inr v" s'] by simp
  next
    fix s0 s v s' assume "same_table s0 s" and "?Q s v s'"
    then show "?Q s0 v s'" by (simp add: same_table_def)
  qed
  then show ?thesis by auto
qed

lemma WithRetry_Updates:
  assumes "WithRetry (Updates x u) n s = (res, s')"
  shows "(\<exists>e. res = Inl e \<and> same_table s s')
         \<or> (res = Inr (assign u (clock s) x)
            \<and> rows s' = map (\<lambda>r. if ID r = ID x then assign u (clock s) r else r) (rows s))"
proof -
  let ?Q = "\<lambda>s v s'. v = assign u (clock s) x
             \<and> rows s' = map (\<lambda>r. if ID r = ID x then assign u (clock s) r else r) (rows s)"
  have "(\<exists>e. res = Inl e \<and> same_table s s') \<or> (\<exists>v. res = Inr v \<and> ?Q s v s')"
  proof (rule WithRetry_cases[where operation = "Updates x u" and Q = ?Q, OF _ _ _ assms])
    fix s e s' assume "Updates x u s = (Inl e, s')"
    then show "same_table s s'" using Updates_step[of x u s "Inl e" s'] by simp
  next
    fix s v s' assume "Updates x u s = (Inr v, s')"
    then show "?Q s v s'" using Updates_step[of x u s "Inr v" s'] by simp
  next
    fix s0 s v s' assume "same_table s0 s" and "?Q s v s'"
    then show "?Q s0 v s'" by (simp add: same_table_def)
  qed
  then show ?thesis by auto
qed

lemma WithRetry_Delete:
  assumes "WithRetry (Delete i) n s = (res, s')"
  shows "(\<exists>e. res = Inl e \<and> same_table s s')
         \<or> (res = Inr () \<and> rows s' = filter (\<lambda>r. int (ID r) \<noteq> i) (rows s))"
proof -
  let ?Q = "\<lambda>s (v::unit) s'. rows s' = filter (\<lambda>r. int (ID r) \<noteq> i) (rows s)"
  have "(\<exists>e. res = Inl e \<and> same_table s s') \<or> (\<exists>v. res = Inr v \<and> ?Q s v s')"
  proof (rule WithRetry_cases[where operation = "Delete i" and Q = ?Q, OF _ _ _ assms])
    fix s e s' assume "Delete i s = (Inl e, s')"
    then show "same_table s s'" using Delete_step[of i s "Inl e" s'] by simp
  next
    fix s v s' assume "Delete i s = (Inr v, s')"
    then show "?Q s v s'" using Delete_step[of i s "Inr v" s'] by simp
  next
    fix s0 s and v :: unit and s' assume "same_table s0 s" and "?Q s v s'"
    then show "?Q s0 v s'" by (simp add: same_table_def)
  qed
  then show ?thesis by auto
qed

lemma same_table_commands: "same_table s s' \<Longrightarrow> commands s' = commands s"
  by (simp add: same_table_def commands_def)

subsection \<open>What each handler does to the table\<close>

lemma CreateSimDeviceCmd_valid:
  assumes "valid_body req"
  shows "CreateSimDeviceCmd (Some req) s =
     (case First (key_of req) s of
        (Inr existing, s1) \<Rightarrow>
          (case WithRetry (Updates existing
                  (no_updates\<lparr>set_output := Some (Output req), set_enabled := Some True\<rparr>)) 6 s1 of
             (Inl e, s2) \<Rightarrow> (reply 500 ''UPSERT_FAILED'' NoData, s2)
           | (Inr existing', s2) \<Rightarrow> (reply 200 ''SUCCESS'' (Record existing'), s2))
      | (Inl e, s1) \<Rightarrow>
          (case WithRetry (Create (req\<lparr>Namespace := TrimSpace (Namespace req),
                    DeviceName := TrimSpace (DeviceName req),
                    Command := TrimSpace (Command req), Enabled := True\<rparr>)) 6 s1 of
             (Inl e, s2) \<Rightarrow> (reply 500 ''CREATE_FAILED'' NoData, s2)
           | (Inr req', s2) \<Rightarrow> (reply 201 ''SUCCESS'' (Record req'), s2)))"
  using assms
  by (cases req; cases "Enabled req")
     (simp_all add: CreateSimDeviceCmd_def valid_body_def key_of_def Let_def
        split: prod.splits sum.splits)

lemma CreateSimDeviceCmd_cases:
  assumes "CreateSimDeviceCmd body s = (resp, s')"
  shows "rows s' = rows s
     \<or> (\<exists>req e. body = Some req \<and> valid_body req \<and> find (key_of req) (rows s) = Some e
          \<and> rows s' = map (\<lambda>r. if ID r = ID e
                         then r\<lparr>Output := Output req, Enabled := True, UpdatedAt := clock s\<rparr>
                         else r) (rows s))
     \<or> (\<exists>req. body = Some req \<and> valid_body req
          \<and> resp = reply 201 ''SUCCESS'' (Record (created req s))
          \<and> rows s' = rows s @ [created req s])"
proof (cases body)
  case None
  then show ?thesis using assms by (simp add: CreateSimDeviceCmd_def)
next
  case (Some req)
  show ?thesis
  proof (cases "valid_body req")
    case False
    then show ?thesis using assms Some
      by (auto simp add: CreateSimDeviceCmd_def valid_body_def Let_def)
  next
    case True
    let ?req = "req\<lparr>Namespace := TrimSpace (Namespace req), DeviceName := TrimSpace (DeviceName req),
                    Command := TrimSpace (Command req), Enabled := True\<rparr>"
    obtain r1 s1 where f: "First (key_of req) s = (r1, s1)" by (cases "First (key_of req) s")
    from First_cases[OF f] have t: "same_table s s1"
      and fr: "case r1 of Inr r \<Rightarrow> find (key_of req) (rows s) = Some r
                         | Inl e \<Rightarrow> e = ErrBusy \<or> find (key_of req) (rows s) = None"
      by auto
    show ?thesis
    proof (cases r1)
      case (Inr e)
      let ?u = "no_updates\<lparr>set_output := Some (Output req), set_enabled := Some True\<rparr>"
      obtain r2 s2 where w: "WithRetry (Updates e ?u) 6 s1 = (r2, s2)"
        by (cases "WithRetry (Updates e ?u) 6 s1")
      have s2: "s' = s2" using assms Some f Inr w
        by (cases r2) (auto simp add: CreateSimDeviceCmd_valid[OF True])
      have fe: "find (key_of req) (rows s) = Some e" using fr Inr by simp
      from WithRetry_Updates[OF w] show ?thesis
      proof
        assume "\<exists>e. r2 = Inl e \<and> same_table s1 s2"
        then have "rows s' = rows s" using t s2 by (auto simp add: same_table_def)
        then show ?thesis by simp
      next
        assume "r2 = Inr (assign ?u (clock s1) e)
            \<and> rows s2 = map (\<lambda>r. if ID r = ID e then assign ?u (clock s1) r else r) (rows s1)"
        then have "rows s' = map (\<lambda>r. if ID r = ID e
                         then r\<lparr>Output := Output req, Enabled := True, UpdatedAt := clock s\<rparr>
                         else r) (rows s)"
          using t s2 by (simp add: same_table_def assign_def no_updates_def cong: if_cong)
        then show ?thesis using Some True fe by blast
      qed
    next
      case (Inl e)
      obtain r2 s2 where w: "WithRetry (Create ?req) 6 s1 = (r2, s2)"
        by (cases "WithRetry (Create ?req) 6 s1")
      have run: "(resp, s') = (case r2 of Inl e \<Rightarrow> (reply 500 ''CREATE_FAILED'' NoData, s2)
                        | Inr req' \<Rightarrow> (reply 201 ''SUCCESS'' (Record req'), s2))"
        using assms Some f Inl w
        by (simp add: CreateSimDeviceCmd_valid[OF True])
      from WithRetry_Create[OF w] show ?thesis
      proof
        assume "\<exists>e. r2 = Inl e \<and> same_table s1 s2"
        then have "rows s' = rows s" using t run by (auto simp add: same_table_def)
        then show ?thesis by simp
      next
        assume a: "r2 = Inr (?req\<lparr>ID := next_id s1, UpdatedAt := clock s1\<rparr>)
            \<and> rows s2 = rows s1 @ [?req\<lparr>ID := next_id s1, UpdatedAt := clock s1\<rparr>]"
        have c: "?req\<lparr>ID := next_id s1, UpdatedAt := clock s1\<rparr> = created req s"
          using t by (cases req) (simp add: created_def same_table_def)
        have "resp = reply 201 ''SUCCESS'' (Record (created req s))
              \<and> rows s' = rows s @ [created req s]"
          using a c t run by (simp add: same_table_def)
        then show ?thesis using Some True by blast
      qed
    qed
  qed
qed

lemma GetSimDeviceCmd_run:
  assumes "0 < i"
  shows "\<exists>r1 s1. First (\<lambda>r. int (ID r) = i) s = (r1, s1)
           \<and> GetSimDeviceCmd i s = (case r1 of Inl e \<Rightarrow> reply 404 ''NOT_FOUND'' NoData
                                      | Inr item \<Rightarrow> reply 200 ''SUCCESS'' (Record item), s1)"
  using assms
  by (cases "First (\<lambda>r. int (ID r) = i) s")
     (auto simp add: GetSimDeviceCmd_def split: sum.splits)

lemma GetSimDeviceCmd_same: "same_table s (snd (GetSimDeviceCmd i s))"
proof (cases "0 < i")
  case True
  from GetSimDeviceCmd_run[OF True, of s] obtain r1 s1
    where f: "First (\<lambda>r. int (ID r) = i) s = (r1, s1)" and g: "snd (GetSimDeviceCmd i s) = s1"
    by auto
  show ?thesis using First_cases[OF f] g by simp
next
  case False
  then show ?thesis by (simp add: GetSimDeviceCmd_def same_table_refl)
qed

lemma GetSimDeviceCmd_absent:
  assumes "0 < i" and "\<forall>r \<in> set (rows s). int (ID r) \<noteq> i"
  shows "fst (GetSimDeviceCmd i s) = reply 404 ''NOT_FOUND'' NoData
         \<and> calls (snd (GetSimDeviceCmd i s)) = calls s + 1"
proof -
  from GetSimDeviceCmd_run[OF assms(1), of s] obtain r1 s1
    where f: "First (\<lambda>r. int (ID r) = i) s = (r1, s1)"
      and g: "GetSimDeviceCmd i s = (case r1 of Inl e \<Rightarrow> reply 404 ''NOT_FOUND'' NoData
                                      | Inr item \<Rightarrow> reply 200 ''SUCCESS'' (Record item), s1)"
    by auto
  have n: "find (\<lambda>r. int (ID r) = i) (rows s) = None" using assms(2) by (simp add: find_None_iff)
  have "\<exists>e. r1 = Inl e" using First_cases[OF f] n by (cases r1) auto
  then show ?thesis using g First_cases[OF f] by auto
qed

lemma UpdateSimDeviceCmd_absent:
  assumes "0 < i" and "\<forall>r \<in> set (rows s). int (ID r) \<noteq> i"
  shows "fst (UpdateSimDeviceCmd i (Some req) s) = reply 404 ''NOT_FOUND'' NoData
         \<and> same_table s (snd (UpdateSimDeviceCmd i (Some req) s))
         \<and> calls (snd (UpdateSimDeviceCmd i (Some req) s)) = calls s + 1"
proof -
  obtain r1 s1 where f: "First (\<lambda>r. int (ID r) = i) s = (r1, s1)"
    by (cases "First (\<lambda>r. int (ID r) = i) s")
  have n: "find (\<lambda>r. int (ID r) = i) (rows s) = None" using assms(2) by (simp add: find_None_iff)
  then obtain e where e: "r1 = Inl e" using First_cases[OF f] by (cases r1) auto
  have "UpdateSimDeviceCmd i (Some req) s = (reply 404 ''NOT_FOUND'' NoData, s1)"
    using assms(1) f e by (simp add: UpdateSimDeviceCmd_def)
  then show ?thesis using First_cases[OF f] by simp
qed

lemma DeleteSimDeviceCmd_run:
  assumes "0 < i"
  shows "\<exists>r1 s1. WithRetry (Delete i) 6 s = (r1, s1)
           \<and> DeleteSimDeviceCmd i s = (case r1 of Inl e \<Rightarrow> reply 500 ''DELETE_FAILED'' NoData
                                         | Inr u \<Rightarrow> reply 200 ''SUCCESS'' NoData, s1)"
  using assms
  by (cases "WithRetry (Delete i) 6 s")
     (auto simp add: DeleteSimDeviceCmd_def split: sum.splits)

lemma DeleteSimDeviceCmd_rows:
  "rows (snd (DeleteSimDeviceCmd i s)) = rows s
   \<or> rows (snd (DeleteSimDeviceCmd i s)) = filter (\<lambda>r. int (ID r) \<noteq> i) (rows s)"
proof (cases "0 < i")
  case True
  from DeleteSimDeviceCmd_run[OF True, of s] obtain r1 s1
    where w: "WithRetry (Delete i) 6 s = (r1, s1)" and g: "snd (DeleteSimDeviceCmd i s) = s1"
    by auto
  show ?thesis using WithRetry_Delete[OF w] g by (auto simp add: same_table_def)
next
  case False
  then show ?thesis by (simp add: DeleteSimDeviceCmd_def)
qed

lemma DeleteSimDeviceCmd_absent:
  assumes "0 < i" and "\<forall>r \<in> set (rows s). int (ID r) \<noteq> i"
  shows "rows (snd (DeleteSimDeviceCmd i s)) = rows s
         \<and> (fst (DeleteSimDeviceCmd i s) = reply 200 ''SUCCESS'' NoData
            \<or> fst (DeleteSimDeviceCmd i s) = reply 500 ''DELETE_FAILED'' NoData)"
proof -
  have "filter (\<lambda>r. int (ID r) \<noteq> i) (rows s) = rows s" using assms(2) by (simp add: filter_id_conv)
  then have r: "rows (snd (DeleteSimDeviceCmd i s)) = rows s"
    using DeleteSimDeviceCmd_rows[of i s] by auto
  from DeleteSimDeviceCmd_run[OF assms(1), of s] obtain r1 s1
    where w: "WithRetry (Delete i) 6 s = (r1, s1)"
      and g: "DeleteSimDeviceCmd i s = (case r1 of Inl e \<Rightarrow> reply 500 ''DELETE_FAILED'' NoData
                                         | Inr u \<Rightarrow> reply 200 ''SUCCESS'' NoData, s1)"
    by blast
  show ?thesis using g r by (cases r1) auto
qed

lemma DeleteSimDeviceCmd_ok:
  "0 < i \<Longrightarrow> busy s = [] \<Longrightarrow> fst (DeleteSimDeviceCmd i s) = reply 200 ''SUCCESS'' NoData"
  by (simp add: DeleteSimDeviceCmd_def Delete_ok)

lemma MatchSimDeviceCmd_same: "same_table s (snd (MatchSimDeviceCmd body s))"
proof (cases body)
  case None
  then show ?thesis by (simp add: MatchSimDeviceCmd_def same_table_refl)
next
  case (Some req)
  let ?P = "in_scope (TrimSpace (mNamespace req)) (TrimSpace (mDeviceName req)) (mEnabledOnly req)"
  obtain r1 s1 where f: "Find ?P s = (r1, s1)" by (cases "Find ?P s")
  have "snd (MatchSimDeviceCmd body s) = s \<or> snd (MatchSimDeviceCmd body s) = s1"
    using Some f by (cases r1) (auto simp add: MatchSimDeviceCmd_def Let_def split: prod.splits)
  then show ?thesis using Find_cases[OF f] same_table_refl by auto
qed

lemma assign_keeps_Command: "set_command u = None \<Longrightarrow> Command (assign u now r) = Command r"
  by (simp add: assign_def)

lemma assign_sets_Command: "set_command u = Some c \<Longrightarrow> Command (assign u now r) = c"
  by (simp add: assign_def)

lemma commands_map_keep:
  "(\<And>r. Command (f r) = Command r) \<Longrightarrow>
   map Command (map (\<lambda>r. if P r then f r else r) xs) = map Command xs"
  by (induction xs) auto

lemma merge_into_commands:
  assumes "merge_into other item req s = (resp, s')"
  shows "set (commands s') \<subseteq> set (commands s)"
proof -
  let ?u = "no_updates\<lparr>set_output := Some (if TrimSpace (Output req) \<noteq> [] then Output req
                                                 else Output item),
                           set_enabled := Some (Enabled req)\<rparr>"
  have u: "set_command ?u = None" by (simp add: no_updates_def)
  obtain r2 s2 where w: "WithRetry (Updates other ?u) 6 s = (r2, s2)"
    by (cases "WithRetry (Updates other ?u) 6 s")
  have c2: "commands s2 = commands s"
  proof -
    from WithRetry_Updates[OF w]
    have "same_table s s2
          \<or> rows s2 = map (\<lambda>r. if ID r = ID other then assign ?u (clock s) r else r) (rows s)"
      by auto
    then show ?thesis
    proof
      assume "same_table s s2"
      then show ?thesis by (rule same_table_commands)
    next
      assume "rows s2 = map (\<lambda>r. if ID r = ID other then assign ?u (clock s) r else r) (rows s)"
      then have "commands s2
                 = map Command (map (\<lambda>r. if ID r = ID other then assign ?u (clock s) r else r) (rows s))"
        by (simp only: commands_def)
      also have "\<dots> = map Command (rows s)"
        by (rule commands_map_keep) (rule assign_keeps_Command[OF u])
      finally show ?thesis by (simp only: commands_def)
    qed
  qed
  show ?thesis
  proof (cases r2)
    case (Inl e)
    then have "s' = s2" using assms w by (simp add: merge_into_def Let_def)
    then show ?thesis using c2 by simp
  next
    case (Inr v)
    obtain r3 s3 where d: "WithRetry (Delete (int (ID item))) 6 s2 = (r3, s3)"
      by (cases "WithRetry (Delete (int (ID item))) 6 s2")
    have s3: "s' = s3" using assms w Inr d by (simp add: merge_into_def Let_def)
    from WithRetry_Delete[OF d]
    have "set (commands s3) \<subseteq> set (commands s2)"
      by (auto simp add: same_table_def commands_def)
    then show ?thesis using c2 s3 by simp
  qed
qed

lemma update_item_commands:
  assumes "update_item item req newNS newDev newCmd s = (resp, s')"
  shows "set (commands s') \<subseteq> set (commands s) \<union> {newCmd}"
proof -
  let ?u = "no_updates
            \<lparr>set_namespace := (if newNS \<noteq> Namespace item then Some newNS else None),
             set_device_name := (if newDev \<noteq> DeviceName item then Some newDev else None),
             set_command := (if newCmd \<noteq> Command item then Some newCmd else None),
             set_output := (if TrimSpace (Output req) \<noteq> [] then Some (Output req) else None),
             set_enabled := Some (Enabled req)\<rparr>"
  obtain r2 s2 where w: "WithRetry (Updates item ?u) 6 s = (r2, s2)"
    by (cases "WithRetry (Updates item ?u) 6 s")
  have s2: "s' = s2" using assms w by (cases r2) (simp_all add: update_item_def Let_def)
  have c: "\<And>r. Command (assign ?u (clock s) r) = Command r \<or> Command (assign ?u (clock s) r) = newCmd"
    by (simp add: assign_def)
  from WithRetry_Updates[OF w]
  have "same_table s s2
        \<or> rows s2 = map (\<lambda>r. if ID r = ID item then assign ?u (clock s) r else r) (rows s)"
    by auto
  then show ?thesis
  proof
    assume "same_table s s2"
    then show ?thesis using s2 same_table_commands by auto
  next
    assume r: "rows s2 = map (\<lambda>r. if ID r = ID item then assign ?u (clock s) r else r) (rows s)"
    show ?thesis
    proof
      fix x assume "x \<in> set (commands s')"
      then obtain r0 where r0: "r0 \<in> set (rows s)"
        and x: "x = Command (if ID r0 = ID item then assign ?u (clock s) r0 else r0)"
        using r s2 by (auto simp add: commands_def)
      then show "x \<in> set (commands s) \<union> {newCmd}"
        using c[of r0] by (auto simp add: commands_def)
    qed
  qed
qed

lemma UpdateSimDeviceCmd_commands:
  "set (commands (snd (UpdateSimDeviceCmd i body s)))
   \<subseteq> set (commands s) \<union> (case body of None \<Rightarrow> {} | Some req \<Rightarrow> {TrimSpace (Command req)})"
proof (cases "0 < i")
  case False
  then show ?thesis by (simp add: UpdateSimDeviceCmd_def)
next
  case pos: True
  show ?thesis
  proof (cases body)
    case None
    then show ?thesis using pos by (simp add: UpdateSimDeviceCmd_def)
  next
    case (Some req)
    obtain r1 s1 where f: "First (\<lambda>r. int (ID r) = i) s = (r1, s1)"
      by (cases "First (\<lambda>r. int (ID r) = i) s")
    from First_cases[OF f] have t1: "commands s1 = commands s"
      using same_table_commands by auto
    show ?thesis
    proof (cases r1)
      case (Inl e)
      then have "snd (UpdateSimDeviceCmd i body s) = s1"
        using pos Some f by (simp add: UpdateSimDeviceCmd_def)
      then show ?thesis using t1 by simp
    next
      case (Inr item)
      then have "find (\<lambda>r. int (ID r) = i) (rows s) = Some item" using First_cases[OF f] by simp
      then have "item \<in> set (rows s)" by (auto simp add: find_Some_iff)
      then have ci: "Command item \<in> set (commands s)" by (simp add: commands_def)
      let ?ns = "if TrimSpace (Namespace req) = [] then Namespace item else TrimSpace (Namespace req)"
      let ?dev = "if TrimSpace (DeviceName req) = [] then DeviceName item else TrimSpace (DeviceName req)"
      let ?cmd = "if TrimSpace (Command req) = [] then Command item else TrimSpace (Command req)"
      obtain r2 s2 where g: "First (same_command ?ns ?dev ?cmd) s1 = (r2, s2)"
        by (cases "First (same_command ?ns ?dev ?cmd) s1")
      from First_cases[OF g] have t2: "commands s2 = commands s"
        using same_table_commands t1 by auto
      have run: "UpdateSimDeviceCmd i body s =
            (case r2 of Inr other \<Rightarrow> if ID other \<noteq> ID item then merge_into other item req s2
                                   else update_item item req ?ns ?dev ?cmd s2
                      | Inl e \<Rightarrow> update_item item req ?ns ?dev ?cmd s2)"
        using pos Some f Inr g by (simp add: UpdateSimDeviceCmd_def Let_def)
      have cmd: "set (commands s) \<union> {?cmd} \<subseteq> set (commands s) \<union> {TrimSpace (Command req)}"
        using ci by auto
      have m: "set (commands (snd (merge_into other item req s2))) \<subseteq> set (commands s)" for other
      proof -
        obtain resp' s'' where e: "merge_into other item req s2 = (resp', s'')"
          by (cases "merge_into other item req s2")
        from merge_into_commands[OF e] show ?thesis using e t2 by simp
      qed
      have n: "set (commands (snd (update_item item req ?ns ?dev ?cmd s2)))
               \<subseteq> set (commands s) \<union> {TrimSpace (Command req)}"
      proof -
        obtain resp' s'' where e: "update_item item req ?ns ?dev ?cmd s2 = (resp', s'')"
          by (cases "update_item item req ?ns ?dev ?cmd s2")
        from update_item_commands[OF e] have "set (commands s'') \<subseteq> set (commands s) \<union> {?cmd}"
          using t2 by simp
        then have "set (commands s'') \<subseteq> set (commands s) \<union> {TrimSpace (Command req)}"
          using cmd by (rule subset_trans)
        then show ?thesis using e by simp
      qed
      show ?thesis
      proof (cases r2)
        case (Inl e)
        then show ?thesis using run n Some by simp
      next
        case (Inr other)
        then show ?thesis using run n m[of other] Some by (cases "ID other = ID item") auto
      qed
    qed
  qed
qed

lemma CreateSimDeviceCmd_commands:
  "commands (snd (CreateSimDeviceCmd body s)) = commands s
   \<or> (\<exists>req. body = Some req
         \<and> commands (snd (CreateSimDeviceCmd body s)) = commands s @ [TrimSpace (Command req)])"
proof -
  obtain resp s' where c: "CreateSimDeviceCmd body s = (resp, s')"
    by (cases "CreateSimDeviceCmd body s")
  from CreateSimDeviceCmd_cases[OF c]
  have "commands s' = commands s
        \<or> (\<exists>req. body = Some req \<and> commands s' = commands s @ [TrimSpace (Command req)])"
  proof (elim disjE)
    assume "rows s' = rows s"
    then show ?thesis by (simp add: commands_def)
  next
    assume "\<exists>req e. body = Some req \<and> valid_body req \<and> find (key_of req) (rows s) = Some e
          \<and> rows s' = map (\<lambda>r. if ID r = ID e
                         then r\<lparr>Output := Output req, Enabled := True, UpdatedAt := clock s\<rparr>
                         else r) (rows s)"
    then obtain req e where "body = Some req \<and> valid_body req \<and> find (key_of req) (rows s) = Some e
          \<and> rows s' = map (\<lambda>r. if ID r = ID e
                         then r\<lparr>Output := Output req, Enabled := True, UpdatedAt := clock s\<rparr>
                         else r) (rows s)" by (elim exE)
    then have "commands s'
          = map Command (map (\<lambda>r. if ID r = ID e
                         then r\<lparr>Output := Output req, Enabled := True, UpdatedAt := clock s\<rparr>
                         else r) (rows s))"
      by (simp only: commands_def)
    also have "\<dots> = map Command (rows s)" by (rule commands_map_keep) simp
    finally show ?thesis by (simp add: commands_def)
  next
    assume "\<exists>req. body = Some req \<and> valid_body req
          \<and> resp = reply 201 ''SUCCESS'' (Record (created req s))
          \<and> rows s' = rows s @ [created req s]"
    then obtain req where "body = Some req" "rows s' = rows s @ [created req s]" by blast
    then have "body = Some req \<and> commands s' = commands s @ [TrimSpace (Command req)]"
      by (simp add: commands_def created_def)
    then show ?thesis by blast
  qed
  then show ?thesis using c by simp
qed

subsection \<open>\<^const>\<open>MatchSimDeviceCmd\<close>\<close>

text \<open>
  C4. When the candidates the store returns contain a record whose normalised command
  equals the normalised input, the answer is \<open>exact\<close> with the output of the first
  such record in the order of the store. The scan stops there: the records after it play
  no part (the loop gives the same on the list cut after that record), and no partial or
  none answer is given, whatever the other candidates match.
\<close>

theorem MatchSimDeviceCmd_exact:
  assumes "busy s = []"
    and "TrimSpace (mNamespace req) \<noteq> []" and "TrimSpace (mDeviceName req) \<noteq> []"
    and "TrimSpace (mCommand req) \<noteq> []"
    and "filter (in_scope (TrimSpace (mNamespace req)) (TrimSpace (mDeviceName req))
                   (mEnabledOnly req)) (rows s) = pre @ r # post"
    and "\<forall>x \<in> set pre. normalizeCommand (Command x) \<noteq> normalizeCommand (mCommand req)"
    and "normalizeCommand (Command r) = normalizeCommand (mCommand req)"
  shows "fst (MatchSimDeviceCmd (Some req) s) = reply 200 ''SUCCESS'' (Match ''exact'' (Output r))
         \<and> fst (scan (TrimSpace (mCommand req)) (normalizeCommand (mCommand req)) (pre @ r # post) [])
           = fst (scan (TrimSpace (mCommand req)) (normalizeCommand (mCommand req)) (pre @ [r]) [])"
  using assms by (simp add: MatchSimDeviceCmd_ok scan_exact match_response_def)


theorem MatchSimDeviceCmd_exact_witness:
  "fst (MatchSimDeviceCmd (Some (ex_match ''show version''))
          (ex_store [ex_row 1 ''show version detail'' ''v1'', ex_row 2 ''Show  Version'' ''v2'',
                     ex_row 3 ''show version'' ''v3'']))
   = reply 200 ''SUCCESS'' (Match ''exact'' ''v2'')"
proof -
  have "fst (MatchSimDeviceCmd (Some (ex_match ''show version''))
          (ex_store [ex_row 1 ''show version detail'' ''v1'', ex_row 2 ''Show  Version'' ''v2'',
                     ex_row 3 ''show version'' ''v3'']))
        = reply 200 ''SUCCESS'' (Match ''exact'' (Output (ex_row 2 ''Show  Version'' ''v2'')))
       \<and> fst (scan (TrimSpace (mCommand (ex_match ''show version'')))
                 (normalizeCommand (mCommand (ex_match ''show version'')))
                 ([ex_row 1 ''show version detail'' ''v1''] @ ex_row 2 ''Show  Version'' ''v2''
                    # [ex_row 3 ''show version'' ''v3'']) [])
         = fst (scan (TrimSpace (mCommand (ex_match ''show version'')))
                 (normalizeCommand (mCommand (ex_match ''show version'')))
                 ([ex_row 1 ''show version detail'' ''v1''] @ [ex_row 2 ''Show  Version'' ''v2'']) [])"
    by (rule MatchSimDeviceCmd_exact; code_simp)
  then show ?thesis by (simp add: ex_row_def)
qed

text \<open>
  C5. When no candidate is an exact match, the answer depends on the candidates that
  positional-prefix-match the input, taken in the order of the scan: none of them gives
  \<open>none\<close> with the output \<open>unspport command\<close>; one gives \<open>partial_single\<close> with
  that record's output; more give \<open>partial_multi\<close> with the line
  \<open>which command do you mean?\<close> followed by one line \<open> -- \<close> plus the trimmed
  command per candidate, joined by newlines.
\<close>

theorem MatchSimDeviceCmd_partial:
  assumes "busy s = []"
    and "TrimSpace (mNamespace req) \<noteq> []" and "TrimSpace (mDeviceName req) \<noteq> []"
    and "TrimSpace (mCommand req) \<noteq> []"
    and "items = filter (in_scope (TrimSpace (mNamespace req)) (TrimSpace (mDeviceName req))
                   (mEnabledOnly req)) (rows s)"
    and "\<forall>x \<in> set items. normalizeCommand (Command x) \<noteq> normalizeCommand (mCommand req)"
    and "matching = filter (\<lambda>it. prefixMatchByWords (mCommand req) (Command it)) items"
  shows "fst (MatchSimDeviceCmd (Some req) s) =
          (if length matching = 0 then reply 200 ''SUCCESS'' (Match ''none'' ''unspport command'')
           else if length matching = 1
           then reply 200 ''SUCCESS'' (Match ''partial_single'' (Output (hd matching)))
           else reply 200 ''SUCCESS'' (Match ''partial_multi''
                  (Join (''which command do you mean?''
                         # map (\<lambda>it. '' -- '' @ TrimSpace (Command it)) matching) [CHR 0x0A])))"
proof -
  have "fst (MatchSimDeviceCmd (Some req) s) = match_response None matching"
    using assms by (simp add: MatchSimDeviceCmd_ok scan_no_exact prefixMatchByWords_TrimSpace)
  then show ?thesis
    by (cases matching) (auto simp add: match_response_def)
qed


theorem MatchSimDeviceCmd_partial_witness:
  "fst (MatchSimDeviceCmd (Some (ex_match ''ping''))
          (ex_store [ex_row 1 ''show ip route'' ''v1'']))
     = reply 200 ''SUCCESS'' (Match ''none'' ''unspport command'')
   \<and> fst (MatchSimDeviceCmd (Some (ex_match ''sh ip int''))
          (ex_store [ex_row 1 ''show ip interface brief'' ''v1'', ex_row 2 ''show version'' ''v2'']))
     = reply 200 ''SUCCESS'' (Match ''partial_single'' ''v1'')
   \<and> fst (MatchSimDeviceCmd (Some (ex_match ''sh ip r''))
          (ex_store [ex_row 1 ''show ip route'' ''v1'', ex_row 2 ''Show IP Running-Config'' ''v2'']))
     = reply 200 ''SUCCESS'' (Match ''partial_multi''
         (''which command do you mean?'' @ [CHR 0x0A] @ '' -- show ip route'' @ [CHR 0x0A]
          @ '' -- Show IP Running-Config''))"
proof (intro conjI)
  show "fst (MatchSimDeviceCmd (Some (ex_match ''ping''))
          (ex_store [ex_row 1 ''show ip route'' ''v1'']))
     = reply 200 ''SUCCESS'' (Match ''none'' ''unspport command'')"
    by (rule trans[OF MatchSimDeviceCmd_partial[where
            items = "[ex_row 1 ''show ip route'' ''v1'']" and matching = "[]"]]; code_simp)
  show "fst (MatchSimDeviceCmd (Some (ex_match ''sh ip int''))
          (ex_store [ex_row 1 ''show ip interface brief'' ''v1'', ex_row 2 ''show version'' ''v2'']))
     = reply 200 ''SUCCESS'' (Match ''partial_single'' ''v1'')"
    by (rule trans[OF MatchSimDeviceCmd_partial[where
            items = "[ex_row 1 ''show ip interface brief'' ''v1'', ex_row 2 ''show version'' ''v2'']"
            and matching = "[ex_row 1 ''show ip interface brief'' ''v1'']"]]; code_simp)
  show "fst (MatchSimDeviceCmd (Some (ex_match ''sh ip r''))
          (ex_store [ex_row 1 ''show ip route'' ''v1'', ex_row 2 ''Show IP Running-Config'' ''v2'']))
     = reply 200 ''SUCCESS'' (Match ''partial_multi''
         (''which command do you mean?'' @ [CHR 0x0A] @ '' -- show ip route'' @ [CHR 0x0A]
          @ '' -- Show IP Running-Config''))"
    by (rule trans[OF MatchSimDeviceCmd_partial[where
            items = "[ex_row 1 ''show ip route'' ''v1'', ex_row 2 ''Show IP Running-Config'' ''v2'']"
            and matching = "[ex_row 1 ''show ip route'' ''v1'', ex_row 2 ''Show IP Running-Config'' ''v2'']"]];
        code_simp)
qed

text \<open>
  C10. \<^const>\<open>MatchSimDeviceCmd\<close> only reads: for every request and every outcome,
  failures of the store included, the table afterwards is the table before, row by row
  and field by field, and no id or time stamp has been handed out.
\<close>

theorem MatchSimDeviceCmd_read_only:
  "rows (snd (MatchSimDeviceCmd body s)) = rows s
   \<and> next_id (snd (MatchSimDeviceCmd body s)) = next_id s
   \<and> clock (snd (MatchSimDeviceCmd body s)) = clock s"
  by (auto simp add: MatchSimDeviceCmd_def Find_def attempt_def Let_def
           split: option.splits list.splits prod.splits bool.splits sum.splits)

subsection \<open>Create, update, get and delete\<close>

text \<open>
  C1, as amended. Two create requests for the same namespace and device whose commands are
  equal after trimming and lower-casing (they differ only in letter case and in leading or
  trailing white space), run one after the other on a store that answers every call and
  holds at most one record under that key, leave exactly one record under the key, and its
  output is the output of the second request.

  As stated, with commands that merely normalise to the same string, the claim fails: the
  lookup compares \<open>LOWER(command)\<close> and does not collapse inner white space, so
  \<open>show  ver\<close> and \<open>show ver\<close> are stored as two records.
\<close>

theorem CreateSimDeviceCmd_converges:
  assumes "busy s = []" and "valid_body a" and "valid_body b"
    and "TrimSpace (Namespace a) = TrimSpace (Namespace b)"
    and "TrimSpace (DeviceName a) = TrimSpace (DeviceName b)"
    and "ToLower (TrimSpace (Command a)) = ToLower (TrimSpace (Command b))"
    and "length (filter (key_of a) (rows s)) \<le> 1"
  shows "\<exists>r. filter (key_of b)
                (rows (snd (CreateSimDeviceCmd (Some b) (snd (CreateSimDeviceCmd (Some a) s))))) = [r]
             \<and> Output r = Output b"
proof -
  have "\<And>r. key_of a r = key_of b r"
    by (simp only: key_of_def same_command_def assms(4,5,6))
  then have k: "key_of a = key_of b" by (rule ext)
  let ?s1 = "snd (CreateSimDeviceCmd (Some a) s)"
  from CreateSimDeviceCmd_one[OF assms(1,2,7)]
  obtain r1 where r1: "filter (key_of a) (rows ?s1) = [r1] \<and> Output r1 = Output a \<and> Enabled r1
             \<and> busy ?s1 = []" ..
  have b1: "busy ?s1 = []" using r1 by (elim conjE)
  have "filter (key_of b) (rows ?s1) = [r1]" using r1 k by (simp only:)
  then have l1: "length (filter (key_of b) (rows ?s1)) \<le> 1" by simp
  from CreateSimDeviceCmd_one[OF b1 assms(3) l1]
  obtain r2 where r2: "filter (key_of b) (rows (snd (CreateSimDeviceCmd (Some b) ?s1))) = [r2]
             \<and> Output r2 = Output b \<and> Enabled r2
             \<and> busy (snd (CreateSimDeviceCmd (Some b) ?s1)) = []" ..
  then have "filter (key_of b) (rows (snd (CreateSimDeviceCmd (Some b) ?s1))) = [r2]
             \<and> Output r2 = Output b" by (simp only:)
  then show ?thesis ..
qed

theorem CreateSimDeviceCmd_whitespace_counterexample:
  "normalizeCommand ''show  ver'' = normalizeCommand ''show ver''
   \<and> length (filter (\<lambda>r. Namespace r = ''lab'' \<and> DeviceName r = ''r1''
                         \<and> normalizeCommand (Command r) = normalizeCommand ''show ver'')
         (rows (snd (CreateSimDeviceCmd (Some (ex_body ''show ver'' ''o2'' True))
                  (snd (CreateSimDeviceCmd (Some (ex_body ''show  ver'' ''o1'' True))
                         (ex_store []))))))) = 2"
  by code_simp

theorem CreateSimDeviceCmd_converges_witness:
  "\<exists>r. filter (key_of (ex_body ''show ver '' ''o2'' True))
         (rows (snd (CreateSimDeviceCmd (Some (ex_body ''show ver '' ''o2'' True))
                  (snd (CreateSimDeviceCmd (Some (ex_body '' Show Ver'' ''o1'' False))
                         (ex_store [ex_row 1 ''show ip route'' ''x'']))))))
        = [r]
      \<and> Output r = ''o2''"
proof -
  have "\<exists>r. filter (key_of (ex_body ''show ver '' ''o2'' True))
         (rows (snd (CreateSimDeviceCmd (Some (ex_body ''show ver '' ''o2'' True))
                  (snd (CreateSimDeviceCmd (Some (ex_body '' Show Ver'' ''o1'' False))
                         (ex_store [ex_row 1 ''show ip route'' ''x'']))))))
        = [r]
      \<and> Output r = Output (ex_body ''show ver '' ''o2'' True)"
    by (rule CreateSimDeviceCmd_converges; code_simp)
  then show ?thesis by (simp add: ex_body_def)
qed

text \<open>
  C2, as amended. On a store that answers every call and whose ids are unique, an update
  of the record \<open>item\<close> is a merge whenever the first record under the prospective key
  (blank fields of the request replaced by the record's), in the order of the primary key,
  is a record \<open>other\<close> with another id: \<open>other\<close> takes the request's output when that
  is not blank and \<open>item\<close>'s output otherwise, and the request's enabled flag;
  \<open>item\<close> is deleted, so that a get of its id answers not-found; and the response
  carries the surviving record.

  As stated, for every update whose prospective key is held by a different record, the claim
  fails twice over. The handler drops the error of the delete, so when the store refuses
  the delete the answer is still \<open>200\<close> with the survivor and the target stays. And the
  lookup takes the first holder of the key and compares its id with the target's: when the
  table holds two records under the key and the target is the first, the update is an
  ordinary one and the other record is left as it was.
\<close>

theorem UpdateSimDeviceCmd_merges:
  assumes "busy s = []" and "distinct (map ID (rows s))"
    and "0 < i" and "item \<in> set (rows s)" and "int (ID item) = i"
    and "find (new_key item req) (rows s) = Some other" and "ID other \<noteq> ID item"
    and "UpdateSimDeviceCmd i (Some req) s = (resp, s')"
  shows "resp = reply 200 ''SUCCESS'' (Record (merged other item req (clock s)))
         \<and> filter (\<lambda>r. ID r = ID other) (rows s') = [merged other item req (clock s)]
         \<and> (\<forall>r \<in> set (rows s'). ID r \<noteq> ID item)
         \<and> fst (GetSimDeviceCmd i s') = reply 404 ''NOT_FOUND'' NoData"
proof -
  let ?g = "\<lambda>r. if ID r = ID other then merged r item req (clock s) else r"
  have fi: "find (\<lambda>r. int (ID r) = i) (rows s) = Some item"
    using find_distinct_id[OF assms(2,4)] assms(5) by simp
  have mem: "other \<in> set (rows s)"
    using assms(6) by (auto simp add: find_Some_iff)
  note u = UpdateSimDeviceCmd_merge[OF assms(1,3) fi assms(6,7)]
  have resp: "resp = reply 200 ''SUCCESS'' (Record (merged other item req (clock s)))"
    using u assms(8) by simp
  have rows: "rows s' = filter (\<lambda>r. ID r \<noteq> ID item) (map ?g (rows s))"
    using u assms(8) by auto
  have gone: "\<forall>r \<in> set (rows s'). ID r \<noteq> ID item" using rows by simp
  then have "\<forall>r \<in> set (rows s'). int (ID r) \<noteq> i" using assms(5) by auto
  then have get: "fst (GetSimDeviceCmd i s') = reply 404 ''NOT_FOUND'' NoData"
    using GetSimDeviceCmd_absent[OF assms(3)] by blast
  have "filter (\<lambda>r. ID r = ID other) (rows s')
        = filter (\<lambda>r. ID r = ID other) (map ?g (rows s))"
    using assms(7) by (auto simp add: rows intro: filter_cong)
  also have "\<dots> = map ?g (filter (\<lambda>r. ID r = ID other) (rows s))"
    by (rule filter_map_frame) simp
  also have "\<dots> = map ?g [other]"
    using filter_id_distinct[OF assms(2) mem] by simp
  finally have kept: "filter (\<lambda>r. ID r = ID other) (rows s') = [merged other item req (clock s)]"
    by simp
  show ?thesis using resp kept gone get by blast
qed

theorem UpdateSimDeviceCmd_merges_counterexample:
  "fst (UpdateSimDeviceCmd 1 (Some (ex_body ''CMD2'' ''new'' False))
          ((ex_store [ex_row 1 ''cmd1'' ''a'', ex_row 2 ''cmd2'' ''b''])
             \<lparr>busy := [False, False, False, True, True, True, True, True, True]\<rparr>))
     = reply 200 ''SUCCESS'' (Record ((ex_row 2 ''cmd2'' ''new'')\<lparr>Enabled := False\<rparr>))
   \<and> fst (GetSimDeviceCmd 1 (snd (UpdateSimDeviceCmd 1 (Some (ex_body ''CMD2'' ''new'' False))
          ((ex_store [ex_row 1 ''cmd1'' ''a'', ex_row 2 ''cmd2'' ''b''])
             \<lparr>busy := [False, False, False, True, True, True, True, True, True]\<rparr>))))
     = reply 200 ''SUCCESS'' (Record (ex_row 1 ''cmd1'' ''a''))
   \<and> fst (UpdateSimDeviceCmd 1 (Some (ex_body '''' ''new'' True))
          (ex_store [ex_row 1 ''show ver'' ''a'', ex_row 2 ''SHOW VER'' ''b'']))
     = reply 200 ''SUCCESS'' (Record (ex_row 1 ''show ver'' ''new''))
   \<and> rows (snd (UpdateSimDeviceCmd 1 (Some (ex_body '''' ''new'' True))
          (ex_store [ex_row 1 ''show ver'' ''a'', ex_row 2 ''SHOW VER'' ''b''])))
     = [ex_row 1 ''show ver'' ''new'', ex_row 2 ''SHOW VER'' ''b'']"
  by code_simp

theorem UpdateSimDeviceCmd_merges_witness:
  "fst (UpdateSimDeviceCmd 1 (Some (ex_body ''CMD2'' ''new'' False))
          (ex_store [ex_row 1 ''cmd1'' ''a'', ex_row 2 ''cmd2'' ''b'']))
     = reply 200 ''SUCCESS'' (Record ((ex_row 2 ''cmd2'' ''new'')\<lparr>Enabled := False\<rparr>))
   \<and> rows (snd (UpdateSimDeviceCmd 1 (Some (ex_body ''CMD2'' ''new'' False))
          (ex_store [ex_row 1 ''cmd1'' ''a'', ex_row 2 ''cmd2'' ''b''])))
     = [(ex_row 2 ''cmd2'' ''new'')\<lparr>Enabled := False\<rparr>]
   \<and> fst (GetSimDeviceCmd 1 (snd (UpdateSimDeviceCmd 1 (Some (ex_body ''CMD2'' ''new'' False))
          (ex_store [ex_row 1 ''cmd1'' ''a'', ex_row 2 ''cmd2'' ''b'']))))
     = reply 404 ''NOT_FOUND'' NoData
   \<and> fst (UpdateSimDeviceCmd 2 (Some (ex_body [] [] True))
          (ex_store [ex_row 1 ''show ver'' ''a'', ex_row 2 ''SHOW VER'' ''b'']))
     = reply 200 ''SUCCESS'' (Record (ex_row 1 ''show ver'' ''b''))
   \<and> fst (GetSimDeviceCmd 2 (snd (UpdateSimDeviceCmd 2 (Some (ex_body [] [] True))
          (ex_store [ex_row 1 ''show ver'' ''a'', ex_row 2 ''SHOW VER'' ''b'']))))
     = reply 404 ''NOT_FOUND'' NoData"
proof -
  let ?s = "ex_store [ex_row 1 ''cmd1'' ''a'', ex_row 2 ''cmd2'' ''b'']"
  let ?req = "ex_body ''CMD2'' ''new'' False"
  let ?u = "UpdateSimDeviceCmd 1 (Some ?req) ?s"
  have m: "fst ?u = reply 200 ''SUCCESS''
              (Record (merged (ex_row 2 ''cmd2'' ''b'') (ex_row 1 ''cmd1'' ''a'') ?req (clock ?s)))
        \<and> filter (\<lambda>r. ID r = ID (ex_row 2 ''cmd2'' ''b'')) (rows (snd ?u))
            = [merged (ex_row 2 ''cmd2'' ''b'') (ex_row 1 ''cmd1'' ''a'') ?req (clock ?s)]
        \<and> (\<forall>r \<in> set (rows (snd ?u)). ID r \<noteq> ID (ex_row 1 ''cmd1'' ''a''))
        \<and> fst (GetSimDeviceCmd 1 (snd ?u)) = reply 404 ''NOT_FOUND'' NoData"
    by (rule UpdateSimDeviceCmd_merges[where s = ?s and i = 1 and req = ?req]; code_simp)
  have e: "merged (ex_row 2 ''cmd2'' ''b'') (ex_row 1 ''cmd1'' ''a'') ?req (clock ?s)
           = (ex_row 2 ''cmd2'' ''new'')\<lparr>Enabled := False\<rparr>"
    by code_simp
  have r: "rows (snd ?u) = [(ex_row 2 ''cmd2'' ''new'')\<lparr>Enabled := False\<rparr>]"
    by code_simp
  let ?d = "ex_store [ex_row 1 ''show ver'' ''a'', ex_row 2 ''SHOW VER'' ''b'']"
  let ?blank = "ex_body [] [] True"
  let ?v = "UpdateSimDeviceCmd 2 (Some ?blank) ?d"
  have n: "fst ?v = reply 200 ''SUCCESS''
              (Record (merged (ex_row 1 ''show ver'' ''a'') (ex_row 2 ''SHOW VER'' ''b'') ?blank (clock ?d)))
        \<and> filter (\<lambda>r. ID r = ID (ex_row 1 ''show ver'' ''a'')) (rows (snd ?v))
            = [merged (ex_row 1 ''show ver'' ''a'') (ex_row 2 ''SHOW VER'' ''b'') ?blank (clock ?d)]
        \<and> (\<forall>r \<in> set (rows (snd ?v)). ID r \<noteq> ID (ex_row 2 ''SHOW VER'' ''b''))
        \<and> fst (GetSimDeviceCmd 2 (snd ?v)) = reply 404 ''NOT_FOUND'' NoData"
    by (rule UpdateSimDeviceCmd_merges[where s = ?d and i = 2 and req = ?blank]; code_simp)
  have f: "merged (ex_row 1 ''show ver'' ''a'') (ex_row 2 ''SHOW VER'' ''b'') ?blank (clock ?d)
           = ex_row 1 ''show ver'' ''b''"
    by code_simp
  show ?thesis using m e r n f by simp
qed

text \<open>
  C6, as amended. A create that inserts a record stores the caller's command with leading
  and trailing white space removed, casing and inner white space as given; every other
  create leaves all stored commands as they are. No handler stores a normalised form:
  get, match and delete add no command text, and the only text an update can add is the
  trimmed command of its request.

  As stated (stored verbatim) the claim fails: the handler trims the command before it
  looks the key up and stores it.
\<close>

theorem stored_command_frame:
  "(commands (snd (CreateSimDeviceCmd body s)) = commands s
     \<or> (\<exists>req. body = Some req
           \<and> commands (snd (CreateSimDeviceCmd body s)) = commands s @ [TrimSpace (Command req)]))
   \<and> set (commands (snd (UpdateSimDeviceCmd i body s)))
       \<subseteq> set (commands s) \<union> (case body of None \<Rightarrow> {} | Some req \<Rightarrow> {TrimSpace (Command req)})
   \<and> set (commands (snd (DeleteSimDeviceCmd i s))) \<subseteq> set (commands s)
   \<and> commands (snd (GetSimDeviceCmd i s)) = commands s
   \<and> commands (snd (MatchSimDeviceCmd mbody s)) = commands s"
proof (intro conjI)
  show "commands (snd (CreateSimDeviceCmd body s)) = commands s
     \<or> (\<exists>req. body = Some req
           \<and> commands (snd (CreateSimDeviceCmd body s)) = commands s @ [TrimSpace (Command req)])"
    by (rule CreateSimDeviceCmd_commands)
  show "set (commands (snd (UpdateSimDeviceCmd i body s)))
       \<subseteq> set (commands s) \<union> (case body of None \<Rightarrow> {} | Some req \<Rightarrow> {TrimSpace (Command req)})"
    by (rule UpdateSimDeviceCmd_commands)
  show "set (commands (snd (DeleteSimDeviceCmd i s))) \<subseteq> set (commands s)"
    using DeleteSimDeviceCmd_rows[of i s] by (auto simp add: commands_def)
  show "commands (snd (GetSimDeviceCmd i s)) = commands s"
    using GetSimDeviceCmd_same by (rule same_table_commands)
  show "commands (snd (MatchSimDeviceCmd mbody s)) = commands s"
    using MatchSimDeviceCmd_same by (rule same_table_commands)
qed

theorem stored_command_counterexample:
  "commands (snd (CreateSimDeviceCmd (Some (ex_body '' Show  Ver '' ''v'' True)) (ex_store [])))
     = [''Show  Ver'']
   \<and> [''Show  Ver''] \<noteq> [Command (ex_body '' Show  Ver '' ''v'' True)]"
  by code_simp

theorem stored_command_frame_witness:
  "commands (snd (CreateSimDeviceCmd (Some (ex_body '' Show  Ver '' ''v'' True))
                    (ex_store [ex_row 1 ''show ip route'' ''x''])))
     = [''show ip route'', ''Show  Ver'']
   \<and> commands (snd (CreateSimDeviceCmd (Some (ex_body '' SHOW IP ROUTE '' ''v'' True))
                    (ex_store [ex_row 1 ''show ip route'' ''x''])))
     = [''show ip route'']"
proof -
  let ?s = "ex_store [ex_row 1 ''show ip route'' ''x'']"
  let ?a = "ex_body '' Show  Ver '' ''v'' True"
  let ?b = "ex_body '' SHOW IP ROUTE '' ''v'' True"
  have na: "commands (snd (CreateSimDeviceCmd (Some ?a) ?s)) \<noteq> commands ?s" by code_simp
  have nb: "\<not> (\<exists>req. Some ?b = Some req
             \<and> commands (snd (CreateSimDeviceCmd (Some ?b) ?s)) = commands ?s @ [TrimSpace (Command req)])"
  proof -
    have "commands (snd (CreateSimDeviceCmd (Some ?b) ?s)) \<noteq> commands ?s @ [TrimSpace (Command ?b)]"
      by code_simp
    then show ?thesis by simp
  qed
  have ta: "TrimSpace (Command ?a) = ''Show  Ver''" by code_simp
  have cs: "commands ?s = [''show ip route'']" by code_simp
  have "commands (snd (CreateSimDeviceCmd (Some ?a) ?s)) = commands ?s @ [TrimSpace (Command ?a)]"
    using stored_command_frame[of "Some ?a" ?s 1 None] na by auto
  moreover have "commands (snd (CreateSimDeviceCmd (Some ?b) ?s)) = commands ?s"
    using stored_command_frame[of "Some ?b" ?s 1 None] nb by blast
  ultimately show ?thesis using ta cs by simp
qed

text \<open>
  C7. A create request that meets no record under its key inserts one (the store answering
  every call), and whenever a create inserts a record, that record is enabled and the
  response is \<open>201\<close> with it, whatever the enabled flag of the request was: no record
  is created disabled.
\<close>

theorem CreateSimDeviceCmd_enabled:
  assumes "CreateSimDeviceCmd body s = (resp, s')"
  shows "(\<forall>req. body = Some req \<and> busy s = [] \<and> valid_body req
               \<and> find (key_of req) (rows s) = None
            \<longrightarrow> rows s' = rows s @ [created req s])
         \<and> (\<forall>x. rows s' = rows s @ [x] \<longrightarrow> Enabled x \<and> resp = reply 201 ''SUCCESS'' (Record x))"
proof (intro conjI allI impI)
  fix req
  assume a: "body = Some req \<and> busy s = [] \<and> valid_body req \<and> find (key_of req) (rows s) = None"
  then have "CreateSimDeviceCmd (Some req) s =
       (reply 201 ''SUCCESS'' (Record (created req s)),
        s\<lparr>rows := rows s @ [created req s], next_id := next_id s + 1, clock := clock s + 1,
          calls := calls s + 2\<rparr>)"
    unfolding created_def by (intro CreateSimDeviceCmd_insert) simp_all
  then have "s' = s\<lparr>rows := rows s @ [created req s], next_id := next_id s + 1,
                    clock := clock s + 1, calls := calls s + 2\<rparr>"
    using assms a by simp
  then show "rows s' = rows s @ [created req s]" by simp
next
  fix x assume x: "rows s' = rows s @ [x]"
  have l: "length (rows s') = Suc (length (rows s))" using x by simp
  from CreateSimDeviceCmd_cases[OF assms]
  have "\<exists>req. body = Some req \<and> valid_body req
          \<and> resp = reply 201 ''SUCCESS'' (Record (created req s))
          \<and> rows s' = rows s @ [created req s]"
  proof (elim disjE)
    assume "rows s' = rows s"
    then show ?thesis using l by simp
  next
    assume "\<exists>req e. body = Some req \<and> valid_body req \<and> find (key_of req) (rows s) = Some e
          \<and> rows s' = map (\<lambda>r. if ID r = ID e
                         then r\<lparr>Output := Output req, Enabled := True, UpdatedAt := clock s\<rparr>
                         else r) (rows s)"
    then have "length (rows s') = length (rows s)" by auto
    then show ?thesis using l by simp
  qed
  then obtain req where r: "resp = reply 201 ''SUCCESS'' (Record (created req s))"
    "rows s' = rows s @ [created req s]" by blast
  then have "x = created req s" using x by simp
  then show "Enabled x" and "resp = reply 201 ''SUCCESS'' (Record x)"
    using r by (simp_all add: created_def)
qed

theorem CreateSimDeviceCmd_enabled_witness:
  "Enabled (last (rows (snd (CreateSimDeviceCmd (Some (ex_body ''show ver'' ''v'' False))
                              (ex_store [ex_row 1 ''show ip route'' ''x''])))))
   \<and> rows (snd (CreateSimDeviceCmd (Some (ex_body ''show ver'' ''v'' False))
                 (ex_store [ex_row 1 ''show ip route'' ''x''])))
     = [ex_row 1 ''show ip route'' ''x'', ex_row 2 ''show ver'' ''v'']"
proof -
  let ?s = "ex_store [ex_row 1 ''show ip route'' ''x'']"
  let ?c = "CreateSimDeviceCmd (Some (ex_body ''show ver'' ''v'' False)) ?s"
  have c: "?c = (fst ?c, snd ?c)" by simp
  have r: "rows (snd ?c) = rows ?s @ [last (rows (snd ?c))]" by code_simp
  have "Enabled (last (rows (snd ?c)))"
    using CreateSimDeviceCmd_enabled[OF c] r by blast
  moreover have "rows (snd ?c) = [ex_row 1 ''show ip route'' ''x'', ex_row 2 ''show ver'' ''v'']"
    by code_simp
  ultimately show ?thesis by simp
qed

text \<open>
  C8, as amended. For a positive id that no record has, get and update (with a well-formed
  body) answer \<open>404 NOT_FOUND\<close> after a single store call, so without a retry, and
  leave the table as it is. Delete leaves the table as it is too, but its answer is never
  not-found: it is \<open>200 SUCCESS\<close>, or \<open>500 DELETE_FAILED\<close> when the store keeps
  failing, and \<open>200 SUCCESS\<close> whenever the store answers.

  As stated, for delete too, the claim fails: the delete handler looks nothing up, and
  deleting no row is not an error of the store.
\<close>

theorem absent_id:
  assumes "0 < i" and "\<forall>r \<in> set (rows s). int (ID r) \<noteq> i"
  shows "fst (GetSimDeviceCmd i s) = reply 404 ''NOT_FOUND'' NoData
         \<and> same_table s (snd (GetSimDeviceCmd i s))
         \<and> calls (snd (GetSimDeviceCmd i s)) = calls s + 1
         \<and> fst (UpdateSimDeviceCmd i (Some req) s) = reply 404 ''NOT_FOUND'' NoData
         \<and> same_table s (snd (UpdateSimDeviceCmd i (Some req) s))
         \<and> calls (snd (UpdateSimDeviceCmd i (Some req) s)) = calls s + 1
         \<and> rows (snd (DeleteSimDeviceCmd i s)) = rows s
         \<and> (fst (DeleteSimDeviceCmd i s) = reply 200 ''SUCCESS'' NoData
            \<or> fst (DeleteSimDeviceCmd i s) = reply 500 ''DELETE_FAILED'' NoData)
         \<and> (busy s = [] \<longrightarrow> fst (DeleteSimDeviceCmd i s) = reply 200 ''SUCCESS'' NoData)"
  using GetSimDeviceCmd_absent[OF assms] GetSimDeviceCmd_same[of s i]
    UpdateSimDeviceCmd_absent[OF assms, of req] DeleteSimDeviceCmd_absent[OF assms]
    DeleteSimDeviceCmd_ok[OF assms(1), of s]
  by blast

theorem absent_id_counterexample:
  "fst (DeleteSimDeviceCmd 5 (ex_store [ex_row 1 ''show ver'' ''v'']))
     = reply 200 ''SUCCESS'' NoData
   \<and> reply 200 ''SUCCESS'' NoData \<noteq> reply 404 ''NOT_FOUND'' NoData"
  by code_simp

theorem absent_id_witness:
  "fst (GetSimDeviceCmd 5 (ex_store [ex_row 1 ''show ver'' ''v'']))
     = reply 404 ''NOT_FOUND'' NoData
   \<and> fst (UpdateSimDeviceCmd 5 (Some (ex_body ''show ver'' ''w'' True))
            (ex_store [ex_row 1 ''show ver'' ''v''])) = reply 404 ''NOT_FOUND'' NoData
   \<and> rows (snd (UpdateSimDeviceCmd 5 (Some (ex_body ''show ver'' ''w'' True))
            (ex_store [ex_row 1 ''show ver'' ''v''])))
     = rows (ex_store [ex_row 1 ''show ver'' ''v''])
   \<and> rows (snd (DeleteSimDeviceCmd 5 (ex_store [ex_row 1 ''show ver'' ''v''])))
     = rows (ex_store [ex_row 1 ''show ver'' ''v''])"
proof -
  let ?s = "ex_store [ex_row 1 ''show ver'' ''v'']"
  have p: "(0::int) < 5" by simp
  have a: "\<forall>r \<in> set (rows ?s). int (ID r) \<noteq> 5" by code_simp
  from absent_id[OF p a, of "ex_body ''show ver'' ''w'' True"]
  show ?thesis by (simp add: same_table_def)
qed

end
